(* ===== verification/KB_Prelude.thy ===== *)
theory KB_Prelude
  imports Main "HOL-Library.Word"
begin

section \<open>Shared vocabulary: bytes, Go errors, outcomes, endianness\<close>

text \<open>
  What every component of the development uses: bytes as 8-bit words, the errors and outcomes of
  Go functions, \<^verbatim>\<open>encoding/binary\<close>'s big- and little-endian codecs, \<^verbatim>\<open>io.ReadFull\<close> over any
  \<^verbatim>\<open>io.Reader\<close>, and the list and word lemmas the component proofs share.
\<close>

unbundle bit_operations_syntax

type_synonym byte = "8 word"
type_synonym bytes = "byte list"
type_synonym uint16 = "16 word"
type_synonym uint32 = "32 word"
type_synonym uint64 = "64 word"

text \<open>
  Go errors. The package-level sentinels the code compares against have a constructor each;
  \<^term>\<open>Errno\<close> is a \<^verbatim>\<open>syscall.Errno\<close>, \<^term>\<open>Errorf\<close> an error made by \<^verbatim>\<open>fmt.Errorf\<close> or
  \<^verbatim>\<open>errors.New\<close>, and \<^term>\<open>OtherErr\<close> stands for an error value that comes out of code the
  sources only call.
\<close>

datatype go_error =
    EOF
  | ErrUnexpectedEOF
  | ErrClosedPipe
  | ErrNotExist
  | ErrTimeout
  | ErrPipeListenerClosed
  | ErrExtensionUnsupported
  | Errno nat
  | Errorf string
  | OtherErr nat

text \<open>
  The ways a Go call ends: it returns a value, it returns a non-nil error, or it panics.
\<close>

datatype 'a outcome = Ret 'a | Fail go_error | Panic string

primrec is_Ret :: "'a outcome \<Rightarrow> bool" where
  "is_Ret (Ret x) = True"
| "is_Ret (Fail e) = False"
| "is_Ret (Panic m) = False"

named_theorems endian_simps \<open>byte codecs read back what they wrote\<close>

subsection \<open>\<^verbatim>\<open>encoding/binary\<close>\<close>

text \<open>
  \<^verbatim>\<open>binary.BigEndian.Uint32\<close>, \<^verbatim>\<open>PutUint32\<close> and their little-endian counterparts, byte for byte
  as the standard library computes them. Callers pass at least four bytes (fewer would panic).
\<close>

definition be_uint32 :: "bytes \<Rightarrow> uint32" where
  "be_uint32 b = ucast (b ! 3) OR push_bit 8 (ucast (b ! 2)) OR
     push_bit 16 (ucast (b ! 1)) OR push_bit 24 (ucast (b ! 0))"

definition be_put_uint32 :: "uint32 \<Rightarrow> bytes" where
  "be_put_uint32 v = [ucast (drop_bit 24 v), ucast (drop_bit 16 v), ucast (drop_bit 8 v), ucast v]"

definition le_uint32 :: "bytes \<Rightarrow> uint32" where
  "le_uint32 b = ucast (b ! 0) OR push_bit 8 (ucast (b ! 1)) OR
     push_bit 16 (ucast (b ! 2)) OR push_bit 24 (ucast (b ! 3))"

definition le_put_uint32 :: "uint32 \<Rightarrow> bytes" where
  "le_put_uint32 v = [ucast v, ucast (drop_bit 8 v), ucast (drop_bit 16 v), ucast (drop_bit 24 v)]"

lemma length_be_put [simp]: "length (be_put_uint32 v) = 4"
  by (simp add: be_put_uint32_def)

lemma length_le_put [simp]: "length (le_put_uint32 v) = 4"
  by (simp add: le_put_uint32_def)

lemma word32_bit_split:
  fixes n :: nat
  assumes "n < 32"
  obtains "n < 8" | "8 \<le> n" "n < 16" | "16 \<le> n" "n < 24" | "24 \<le> n" "n < 32"
  using assms by linarith

lemma unat_inc:
  fixes i n :: "'a::len word"
  assumes "i < n"
  shows "unat (i + 1) = unat i + 1"
proof -
  have "unat n < 2 ^ LENGTH('a)" by simp
  then have "unat i + 1 < 2 ^ LENGTH('a)"
    using assms unfolding word_less_nat_alt by linarith
  then show ?thesis by (simp add: unat_word_ariths)
qed

lemma byte_unat_less: "unat (b :: byte) < 256"
  using unsigned_less [of b] by simp

lemma byte_bit_high: "8 \<le> n \<Longrightarrow> \<not> bit (a::byte) n"
  using bit_imp_le_length [of a n] by auto

lemma be_uint32_put [simp, endian_simps]: "be_uint32 (be_put_uint32 v @ xs) = v"
proof (rule bit_word_eqI)
  fix n assume "n < LENGTH(32)"
  then have "n < 32" by simp
  then show "bit (be_uint32 (be_put_uint32 v @ xs)) n = bit v n"
    by (cases rule: word32_bit_split)
       (auto simp: be_uint32_def be_put_uint32_def bit_simps nth_append)
qed

lemma le_uint32_put [simp, endian_simps]: "le_uint32 (le_put_uint32 v @ xs) = v"
proof (rule bit_word_eqI)
  fix n assume "n < LENGTH(32)"
  then have "n < 32" by simp
  then show "bit (le_uint32 (le_put_uint32 v @ xs)) n = bit v n"
    by (cases rule: word32_bit_split)
       (auto simp: le_uint32_def le_put_uint32_def bit_simps nth_append)
qed

lemma be_uint32_put0 [simp, endian_simps]: "be_uint32 (be_put_uint32 v) = v"
  using be_uint32_put [of v "[]"] by simp

lemma le_uint32_put0 [simp, endian_simps]: "le_uint32 (le_put_uint32 v) = v"
  using le_uint32_put [of v "[]"] by simp

lemma be_put_four: "be_put_uint32 (be_uint32 [a, b, c, d]) = [a, b, c, d]"
  unfolding be_uint32_def be_put_uint32_def list.inject
  by (intro conjI bit_word_eqI refl) (auto simp: bit_simps byte_bit_high)

lemma four_bytesE:
  assumes "length b = 4"
  obtains w x y z where "b = [w, x, y, z]"
  using assms by (auto simp: numeral_eq_Suc length_Suc_conv)

text \<open>Four bytes and the 32-bit number they spell determine each other.\<close>

lemma be_put_uint32_inverse [simp, endian_simps]:
  assumes "length b = 4"
  shows "be_put_uint32 (be_uint32 b) = b"
  using assms by (auto elim!: four_bytesE simp: be_put_four)

lemma be_uint32_take: "4 \<le> k \<Longrightarrow> 4 \<le> length b \<Longrightarrow> be_uint32 (take k b) = be_uint32 b"
  by (simp add: be_uint32_def)

subsection \<open>Lists\<close>

lemma take_take_drop: "take k b @ take l (drop k b) @ drop (k + l) b = b"
  by (metis add.commute append_take_drop_id drop_drop)

lemma take_drop_length: "take n xs @ drop (length (take n xs)) xs = xs"
  by (cases "n \<le> length xs") auto

lemma take_ConsD: "take n xs = y # ys \<Longrightarrow> 0 < n"
  by (cases n) auto

lemma concat_all_Nil: "(\<And>x. x \<in> set xs \<Longrightarrow> x \<noteq> []) \<Longrightarrow> concat xs = [] \<Longrightarrow> xs = []"
  by (cases xs) auto

subsection \<open>Strings for Windows\<close>

text \<open>
  \<^verbatim>\<open>syscall.UTF16PtrFromString\<close> fails with \<^verbatim>\<open>EINVAL\<close> exactly for a string with a NUL in it; otherwise
  the system gets the string.
\<close>

definition has_nul :: "string \<Rightarrow> bool" where
  "has_nul s = (CHR 0x00 \<in> set s)"

definition EINVAL :: go_error where
  "EINVAL = OtherErr 22"

subsection \<open>Decimal numerals\<close>

text \<open>\<^verbatim>\<open>fmt\<close>'s \<^verbatim>\<open>%d\<close> on a non-negative number.\<close>

definition digit_char :: "nat \<Rightarrow> char" where
  "digit_char d = char_of (48 + d)"

fun dec :: "nat \<Rightarrow> string" where
  "dec n = (if n < 10 then [digit_char n] else dec (n div 10) @ [digit_char (n mod 10)])"

declare dec.simps [simp del]

definition undigit :: "char \<Rightarrow> nat" where
  "undigit c = of_char c - 48"

definition undec :: "string \<Rightarrow> nat" where
  "undec = foldl (\<lambda>a c. 10 * a + undigit c) 0"

lemma undigit_digit [simp]: "d < 10 \<Longrightarrow> undigit (digit_char d) = d"
  by (simp add: undigit_def digit_char_def of_char_of)

lemma undec_dec [simp]: "undec (dec n) = n"
proof (induction n rule: dec.induct)
  case (1 n)
  then show ?case by (subst dec.simps) (auto simp: undec_def)
qed

lemma dec_digits: "set (dec n) \<subseteq> digit_char ` {..<10}"
proof (induction n rule: dec.induct)
  case (1 n)
  then show ?case by (subst dec.simps) auto
qed

lemma dec_nonempty: "dec n \<noteq> []"
  by (subst dec.simps) simp

end
