(* ===== verification/Go_IO.thy ===== *)
theory Go_IO
  imports KB_Prelude
begin

section \<open>Readers and connections of the Go standard library\<close>

text \<open>
  What the transports use of \<^verbatim>\<open>io\<close> and \<^verbatim>\<open>net\<close>. An \<^verbatim>\<open>io.Reader\<close> over a state \<open>'s\<close> is a function
  from the state and the size of the buffer it may fill to the new state, the bytes it wrote
  into the buffer and the error (\<^term>\<open>None\<close> is \<^verbatim>\<open>nil\<close>). \<open>ReadFull\<close> is \<^verbatim>\<open>io.ReadFull\<close>: it loops
  over \<^verbatim>\<open>Read\<close>, so it is a partial function, and a reader that keeps its contract
  (\<open>byte_source\<close>) makes it return. A \<open>conn\<close> is a \<^verbatim>\<open>net.Conn\<close> seen from this process.
\<close>

subsection \<open>\<^verbatim>\<open>io.ReadFull\<close>\<close>

type_synonym 's reader = "'s \<Rightarrow> nat \<Rightarrow> 's \<times> bytes \<times> go_error option"

text \<open>
  \<^verbatim>\<open>io.ReadAtLeast(r, buf, len(buf))\<close> with \<open>acc\<close> the part of \<open>buf\<close> that is already filled. After
  the loop an error is dropped when the buffer is full, and \<^verbatim>\<open>EOF\<close> after a partial fill becomes
  \<^verbatim>\<open>ErrUnexpectedEOF\<close>.
\<close>

definition full_err :: "nat \<Rightarrow> bytes \<Rightarrow> go_error \<Rightarrow> go_error option" where
  "full_err n acc er =
     (if n \<le> length acc then None
      else if acc \<noteq> [] \<and> er = EOF then Some ErrUnexpectedEOF
      else Some er)"

partial_function (option) read_loop ::
  "'s reader \<Rightarrow> 's \<Rightarrow> nat \<Rightarrow> bytes \<Rightarrow> ('s \<times> bytes \<times> go_error option) option" where
  "read_loop rd s n acc =
     (if n \<le> length acc then Some (s, acc, None)
      else case rd s (n - length acc) of (s', b, e) \<Rightarrow>
        (case e of
           None \<Rightarrow> read_loop rd s' n (acc @ b)
         | Some er \<Rightarrow> Some (s', acc @ b, full_err n (acc @ b) er)))"

definition ReadFull :: "'s reader \<Rightarrow> 's \<Rightarrow> nat \<Rightarrow> ('s \<times> bytes \<times> go_error option) option" where
  "ReadFull rd s n = read_loop rd s n []"

text \<open>
  The contract of a well-behaved reader: \<open>avail\<close> is what it will still deliver, in order. A
  successful read takes a non-empty piece off the front; at least one byte comes whenever some
  are left.
\<close>

locale byte_source =
  fixes rd :: "'s reader"
    and avail :: "'s \<Rightarrow> bytes"
    and ok :: "'s \<Rightarrow> bool"
  assumes rd_some: "ok s \<Longrightarrow> 0 < n \<Longrightarrow> avail s \<noteq> [] \<Longrightarrow>
      \<exists>s' b. rd s n = (s', b, None) \<and> b \<noteq> [] \<and> length b \<le> n \<and>
        avail s = b @ avail s' \<and> ok s'"
begin

lemma read_loop_full:
  assumes "ok s" and "n \<le> length acc + length (avail s)" and "length acc \<le> n"
  shows "\<exists>s'. read_loop rd s n acc = Some (s', acc @ take (n - length acc) (avail s), None) \<and>
    ok s' \<and> avail s' = drop (n - length acc) (avail s)"
  using assms
proof (induction "n - length acc" arbitrary: s acc rule: less_induct)
  case less
  show ?case
  proof (cases "n \<le> length acc")
    case True
    with less.prems show ?thesis by (simp add: read_loop.simps)
  next
    case False
    then have "0 < n - length acc" and "avail s \<noteq> []" using less.prems by auto
    with rd_some [OF less.prems(1)] obtain s1 b where rd: "rd s (n - length acc) = (s1, b, None)"
      and b: "b \<noteq> []" "length b \<le> n - length acc" "avail s = b @ avail s1" "ok s1"
      by blast
    have "\<exists>s'. read_loop rd s1 n (acc @ b) =
        Some (s', (acc @ b) @ take (n - length (acc @ b)) (avail s1), None) \<and>
        ok s' \<and> avail s' = drop (n - length (acc @ b)) (avail s1)"
      using False less.prems(2) b by (intro less.hyps) (auto simp: diff_less_mono2)
    with False rd b show ?thesis by (simp add: read_loop.simps [of rd s n acc])
  qed
qed

text \<open>\<^verbatim>\<open>io.ReadFull\<close> returns, and with exactly the next \<open>n\<close> bytes.\<close>

lemma ReadFull_avail:
  assumes "ok s" and "n \<le> length (avail s)"
  obtains s' where "ReadFull rd s n = Some (s', take n (avail s), None)"
    and "ok s'" and "avail s' = drop n (avail s)"
  using read_loop_full [of s n "[]"] assms by (auto simp: ReadFull_def)

end

subsection \<open>Connections\<close>

text \<open>
  A connection: the segments the peer will still deliver, the error its read side ends with
  (\<^verbatim>\<open>io.EOF\<close> after a clean shutdown), the writes completed so far, oldest first (a peer such as
  XShell tells them apart), the schedule of failures of the coming writes (an exhausted schedule
  means success) and whether this side has closed it.
\<close>

record conn =
  inp :: "bytes list"
  rd_err :: go_error
  outp :: "bytes list"
  wr_sched :: "go_error option list"
  closed :: bool

definition conn_avail :: "conn \<Rightarrow> bytes" where
  "conn_avail c = concat (inp c)"

text \<open>\<^verbatim>\<open>Read(p)\<close>: at most \<open>n = len(p)\<close> bytes of the segment at hand.\<close>

definition conn_Read :: "conn reader" where
  "conn_Read c n =
     (case inp c of
        [] \<Rightarrow> (c, [], Some (rd_err c))
      | seg # rest \<Rightarrow>
          if length seg \<le> n then (c\<lparr>inp := rest\<rparr>, seg, None)
          else (c\<lparr>inp := drop n seg # rest\<rparr>, take n seg, None))"

text \<open>\<^verbatim>\<open>Write(p)\<close>: the whole of \<open>p\<close> as one message, or an error.\<close>

definition conn_Write :: "conn \<Rightarrow> bytes \<Rightarrow> conn \<times> go_error option" where
  "conn_Write c p =
     (case wr_sched c of
        [] \<Rightarrow> (c\<lparr>outp := outp c @ [p]\<rparr>, None)
      | None # r \<Rightarrow> (c\<lparr>outp := outp c @ [p], wr_sched := r\<rparr>, None)
      | Some e # r \<Rightarrow> (c\<lparr>wr_sched := r\<rparr>, Some e))"

definition conn_Close :: "conn \<Rightarrow> conn" where
  "conn_Close c = c\<lparr>closed := True\<rparr>"

text \<open>
  \<^verbatim>\<open>io.ReadFull(conn, buf)\<close> with \<open>n = len(buf)\<close> in closed form; \<open>ReadFull_conn\<close> below shows that it is
  what the loop over \<^verbatim>\<open>Read\<close> computes.
\<close>

fun drop_segs :: "nat \<Rightarrow> bytes list \<Rightarrow> bytes list" where
  "drop_segs n [] = []"
| "drop_segs n (seg # rest) =
     (if n = 0 then seg # rest
      else if length seg \<le> n then drop_segs (n - length seg) rest
      else drop n seg # rest)"

definition conn_ReadFull :: "conn \<Rightarrow> nat \<Rightarrow> conn \<times> bytes \<times> go_error option" where
  "conn_ReadFull c n =
     (let av = conn_avail c in
      (c\<lparr>inp := drop_segs n (inp c)\<rparr>, take n av,
       if n \<le> length av then None else full_err n av (rd_err c)))"

definition conn_ok :: "conn \<Rightarrow> bool" where
  "conn_ok c \<longleftrightarrow> [] \<notin> set (inp c)"

lemma concat_drop_segs [simp]: "concat (drop_segs n segs) = drop n (concat segs)"
  by (induction n segs rule: drop_segs.induct) auto

lemma drop_segs_0 [simp]: "drop_segs 0 segs = segs"
  by (cases segs) auto

lemma drop_segs_all: "length (concat segs) < n \<Longrightarrow> drop_segs n segs = []"
  by (induction n segs rule: drop_segs.induct) auto

lemma concat_inp [simp]: "concat (inp c) = conn_avail c"
  by (simp add: conn_avail_def)

lemma conn_avail_simps [simp]:
  "conn_avail (c\<lparr>inp := i\<rparr>) = concat i"
  "conn_avail (c\<lparr>outp := o'\<rparr>) = conn_avail c"
  "conn_avail (c\<lparr>wr_sched := w\<rparr>) = conn_avail c"
  "conn_avail (c\<lparr>closed := x\<rparr>) = conn_avail c"
  by (simp_all add: conn_avail_def del: concat_inp)

lemma conn_Read_Nil: "inp c = [] \<Longrightarrow> conn_Read c n = (c, [], Some (rd_err c))"
  by (simp add: conn_Read_def)

lemma conn_Read_Cons: "inp c = seg # rest \<Longrightarrow> conn_Read c n =
    (if length seg \<le> n then (c\<lparr>inp := rest\<rparr>, seg, None)
     else (c\<lparr>inp := drop n seg # rest\<rparr>, take n seg, None))"
  by (simp add: conn_Read_def)

lemma read_loop_conn:
  assumes "length acc \<le> n"
  shows "read_loop conn_Read c n acc =
    Some (c\<lparr>inp := drop_segs (n - length acc) (inp c)\<rparr>, acc @ take (n - length acc) (conn_avail c),
      if n \<le> length acc + length (conn_avail c) then None
      else full_err n (acc @ conn_avail c) (rd_err c))"
  using assms
proof (induction "inp c" arbitrary: c acc)
  case Nil
  then have "inp c = []" by simp
  then have "c\<lparr>inp := []\<rparr> = c" by (cases c) simp
  with Nil.prems \<open>inp c = []\<close> show ?case
    by (subst read_loop.simps) (simp add: conn_Read_Nil conn_avail_def del: concat_inp)
next
  case (Cons seg rest)
  show ?case
  proof (cases "n \<le> length acc")
    case True
    with Cons.prems show ?thesis by (simp add: read_loop.simps [of conn_Read c n acc])
  next
    case False
    note inp = Cons.hyps(2) [symmetric]
    note unf = read_loop.simps [of conn_Read c n acc] conn_Read_Cons [OF inp]
    show ?thesis
    proof (cases "length seg \<le> n - length acc")
      case True
      have "read_loop conn_Read (c\<lparr>inp := rest\<rparr>) n (acc @ seg) = Some
        (c\<lparr>inp := drop_segs (n - length (acc @ seg)) rest\<rparr>,
         (acc @ seg) @ take (n - length (acc @ seg)) (concat rest),
         if n \<le> length (acc @ seg) + length (concat rest) then None
         else full_err n ((acc @ seg) @ concat rest) (rd_err c))"
        using Cons.hyps(1) [of "c\<lparr>inp := rest\<rparr>" "acc @ seg"] True False by simp
      with True False show ?thesis by (auto simp: unf inp conn_avail_def simp del: concat_inp)
    next
      case long: False
      then have "n \<le> length acc + length seg" by simp
      with long False show ?thesis
        by (simp add: unf inp conn_avail_def read_loop.simps [of conn_Read _ n "acc @ take (n - length acc) seg"]
            del: concat_inp)
    qed
  qed
qed

text \<open>On a connection \<^verbatim>\<open>io.ReadFull\<close> always returns, with the closed form's result.\<close>

lemma ReadFull_conn: "ReadFull conn_Read c n = Some (conn_ReadFull c n)"
  by (simp add: ReadFull_def conn_ReadFull_def read_loop_conn Let_def)

interpretation net_conn: byte_source conn_Read conn_avail conn_ok
proof
  fix s :: conn and n :: nat
  assume "conn_ok s" "0 < n" "conn_avail s \<noteq> []"
  then show "\<exists>s' b. conn_Read s n = (s', b, None) \<and> b \<noteq> [] \<and> length b \<le> n \<and>
      conn_avail s = b @ conn_avail s' \<and> conn_ok s'"
    by (cases "inp s") (auto simp: conn_Read_def conn_avail_def conn_ok_def simp del: concat_inp)
qed

text \<open>The three ways \<^verbatim>\<open>io.ReadFull\<close> ends, as the callers distinguish them.\<close>

lemma conn_ReadFull_ok [simp]:
  "n \<le> length (conn_avail c) \<Longrightarrow>
    conn_ReadFull c n = (c\<lparr>inp := drop_segs n (inp c)\<rparr>, take n (conn_avail c), None)"
  by (simp add: conn_ReadFull_def)

lemma conn_ReadFull_short [simp]:
  "length (conn_avail c) < n \<Longrightarrow>
    conn_ReadFull c n = (c\<lparr>inp := []\<rparr>, conn_avail c,
      Some (if conn_avail c \<noteq> [] \<and> rd_err c = EOF then ErrUnexpectedEOF else rd_err c))"
  by (simp add: conn_ReadFull_def full_err_def drop_segs_all)

lemma conn_ReadFull_None_iff:
  "conn_ReadFull c n = (c', b, None) \<longleftrightarrow>
    n \<le> length (conn_avail c) \<and> c' = c\<lparr>inp := drop_segs n (inp c)\<rparr> \<and> b = take n (conn_avail c)"
  by (cases "n \<le> length (conn_avail c)") auto

lemma conn_ReadFull_SomeD:
  "conn_ReadFull c n = (c', b, Some e) \<Longrightarrow>
    length (conn_avail c) < n \<and> c' = c\<lparr>inp := []\<rparr> \<and> b = conn_avail c \<and>
    e = (if conn_avail c \<noteq> [] \<and> rd_err c = EOF then ErrUnexpectedEOF else rd_err c)"
  by (cases "n \<le> length (conn_avail c)") auto

text \<open>Whether the next write goes through.\<close>

definition write_ok :: "conn \<Rightarrow> bool" where
  "write_ok c \<longleftrightarrow> (\<forall>e r. wr_sched c \<noteq> Some e # r)"

lemma write_ok_inp [simp]: "write_ok (c\<lparr>inp := i\<rparr>) = write_ok c"
  by (simp add: write_ok_def)

lemma conn_Write_None_iff:
  "conn_Write c p = (c', None) \<longleftrightarrow>
    write_ok c \<and> c' = c\<lparr>outp := outp c @ [p], wr_sched := tl (wr_sched c)\<rparr>"
  by (cases c; cases "wr_sched c") (auto simp: conn_Write_def write_ok_def split: option.splits)

lemma conn_Write_ok:
  "write_ok c \<Longrightarrow> conn_Write c p = (c\<lparr>outp := outp c @ [p], wr_sched := tl (wr_sched c)\<rparr>, None)"
  by (simp add: conn_Write_None_iff)

lemma conn_Write_SomeD:
  "conn_Write c p = (c', Some e) \<Longrightarrow> \<not> write_ok c \<and> c' = c\<lparr>wr_sched := tl (wr_sched c)\<rparr>"
  by (auto simp: conn_Write_def write_ok_def split: list.splits option.splits)

end
