(* ===== verification/App_XShell.thy ===== *)
theory App_XShell
  imports Go_IO
begin

section \<open>The XShell transport (\<^verbatim>\<open>app/xshell.go\<close>)\<close>

text \<open>
  The Xagent handshake and \<^verbatim>\<open>xshellProxy\<close>, the adapter between XShell's message-oriented use of a
  TCP connection and the agent protocol. \<^verbatim>\<open>ssh.Unmarshal\<close> and \<^verbatim>\<open>ssh.Marshal\<close> belong to
  \<^verbatim>\<open>golang.org/x/crypto\<close> and are parameters: \<open>um\<close> parses an \<^verbatim>\<open>initAgentMsg\<close>, \<open>ma\<close> prints an
  \<^verbatim>\<open>initAgentRepMsg\<close>, \<open>us\<close> gives the error of parsing a \<^verbatim>\<open>signRequestAgentMsg\<close>. An \<^verbatim>\<open>int\<close> is 64 bits
  wide (the amd64 build).
\<close>

definition maxAgentResponseBytes :: nat where
  "maxAgentResponseBytes = 16 * 2 ^ 20"

definition agentSignRequest :: byte where
  "agentSignRequest = 13"

record initAgentMsg =
  Flag :: uint32
  Length :: uint32
  Cookie :: bytes

subsection \<open>Handshake\<close>

definition xshellHandshake ::
  "(bytes \<Rightarrow> go_error + initAgentMsg) \<Rightarrow> (uint32 \<Rightarrow> bytes) \<Rightarrow> conn \<Rightarrow> bytes \<Rightarrow> conn \<times> unit outcome" where
  "xshellHandshake um ma c cookie =
     (case conn_ReadFull c 4 of
        (c1, len, Some e) \<Rightarrow> (c1, Fail e)
      | (c1, len, None) \<Rightarrow>
          (let l = be_uint32 len + 4 in
           if maxAgentResponseBytes < unat l
           then (c1, Fail (Errorf (''xagent: request too large: '' @ dec (unat l))))
           else case conn_ReadFull c1 (unat l) of
             (c2, req, Some e) \<Rightarrow> (c2, Fail e)
           | (c2, req, None) \<Rightarrow>
               (case req of
                  [] \<Rightarrow> (c2, Panic ''index out of range [0] with length 0'')
                | opc # _ \<Rightarrow>
                    if opc \<noteq> 99
                    then (c2, Fail (Errorf (''xagent: unknown opcode: '' @ dec (unat opc))))
                    else case um req of
                      Inl e \<Rightarrow> (c2, Fail e)
                    | Inr m \<Rightarrow>
                        if unat (Length m) \<noteq> length cookie
                        then (c2, Fail (Errorf ''xagent: invalid cookie length''))
                        else if unat (Length m) < length (Cookie m)
                        then (c2, Fail (Errorf ''xagent: invalid message length''))
                        else case conn_ReadFull c2 (unat (Length m) - length (Cookie m)) of
                          (c3, remain, Some e) \<Rightarrow> (c3, Fail e)
                        | (c3, remain, None) \<Rightarrow>
                            if Cookie m @ remain \<noteq> cookie
                            then (c3, Fail (Errorf ''xagent: invalid cookie''))
                            else (let rep = ma (Flag m) in
                              case conn_Write c3 (be_put_uint32 (word_of_nat (length rep)) @ rep) of
                                (c4, Some e) \<Rightarrow> (c4, Fail e)
                              | (c4, None) \<Rightarrow> (c4, Ret ())))))"

text \<open>
  What the handshake relies on of \<^verbatim>\<open>ssh.Unmarshal\<close> and \<^verbatim>\<open>ssh.Marshal\<close>: the wire format of their
  documentation (the message number of the \<^verbatim>\<open>sshtype\<close> tag, then \<^verbatim>\<open>uint32\<close> fields big-endian, then
  the \<^verbatim>\<open>ssh:"rest"\<close> field), and an error on any other input.
\<close>

definition init_wire :: "initAgentMsg \<Rightarrow> bytes" where
  "init_wire m = 99 # be_put_uint32 (Flag m) @ be_put_uint32 (Length m) @ Cookie m"

definition unmarshals_init :: "(bytes \<Rightarrow> go_error + initAgentMsg) \<Rightarrow> bool" where
  "unmarshals_init um \<longleftrightarrow>
     (\<forall>m. um (init_wire m) = Inr m) \<and> (\<forall>b m. um b = Inr m \<longrightarrow> b = init_wire m)"

subsection \<open>The proxy\<close>

record xshellProxy =
  pconn :: conn
  buf :: bytes
  wlength :: nat
  wbuf :: bytes

text \<open>
  \<^verbatim>\<open>Read\<close>: serve what is buffered; otherwise read one length-prefixed message, append the four
  zero bytes of a missing flags field to a sign request that does not parse, and buffer it with
  the corrected length. A body cut short leaves the zero-filled buffer behind.
\<close>

definition add_flags :: "(bytes \<Rightarrow> go_error option) \<Rightarrow> bytes \<Rightarrow> bytes" where
  "add_flags us body =
     (if hd body = agentSignRequest \<and> us body \<noteq> None then body @ [0, 0, 0, 0] else body)"

definition xshellProxy_Read :: "(bytes \<Rightarrow> go_error option) \<Rightarrow> xshellProxy reader" where
  "xshellProxy_Read us s n =
     (if buf s \<noteq> [] then (s\<lparr>buf := drop n (buf s)\<rparr>, take n (buf s), None)
      else case conn_ReadFull (pconn s) 4 of
        (c1, len, Some e) \<Rightarrow> (s\<lparr>pconn := c1\<rparr>, [], Some e)
      | (c1, len, None) \<Rightarrow>
          (let l = be_uint32 len in
           if l = 0 then (s\<lparr>pconn := c1\<rparr>, [], Some ErrUnexpectedEOF)
           else if maxAgentResponseBytes < unat l
           then (s\<lparr>pconn := c1\<rparr>, [], Some (Errorf (''xagent: request too large: '' @ dec (unat l))))
           else case conn_ReadFull c1 (unat l) of
             (c2, body, Some e) \<Rightarrow>
               (s\<lparr>pconn := c2, buf := replicate 4 0 @ body @ replicate (unat l - length body) 0\<rparr>,
                [], Some e)
           | (c2, body, None) \<Rightarrow>
               (let l' = (if hd body = agentSignRequest \<and> us body \<noteq> None then l + 4 else l);
                    full = be_put_uint32 l' @ add_flags us body
                in (s\<lparr>pconn := c2, buf := drop n full\<rparr>, take n full, None))))"

text \<open>\<^verbatim>\<open>Write\<close>: gather a message that arrives in pieces and send it in one \<^verbatim>\<open>conn.Write\<close>.\<close>

definition xshellProxy_Write :: "xshellProxy \<Rightarrow> bytes \<Rightarrow> xshellProxy \<times> nat \<times> go_error option" where
  "xshellProxy_Write s p =
     (if wlength s = 0 then
        (if length p \<noteq> 4 then (s, 0, Some (Errorf ''xagent proxy: invalid write status''))
         else (s\<lparr>wlength := unat (be_uint32 p) + 4, wbuf := wbuf s @ p\<rparr>, length p, None))
      else
        (let wb = wbuf s @ p in
         if length wb = wlength s then
           (case conn_Write (pconn s) wb of
              (c, Some e) \<Rightarrow> (s\<lparr>pconn := c, wlength := 0, wbuf := wb\<rparr>, 0, Some e)
            | (c, None) \<Rightarrow> (s\<lparr>pconn := c, wlength := 0, wbuf := []\<rparr>, length p, None))
         else if wlength s < length wb then
           (s\<lparr>wbuf := wb\<rparr>, 0, Some (Errorf ''xagent proxy: invalid write length''))
         else (s\<lparr>wbuf := wb\<rparr>, length p, None)))"

definition xshellProxy_Close :: "xshellProxy \<Rightarrow> xshellProxy" where
  "xshellProxy_Close s = s\<lparr>pconn := conn_Close (pconn s)\<rparr>"

text \<open>A run of writes, stopping at the first error as every caller of \<^verbatim>\<open>io.Writer\<close> here does.\<close>

fun write_all :: "xshellProxy \<Rightarrow> bytes list \<Rightarrow> xshellProxy \<times> go_error option" where
  "write_all s [] = (s, None)"
| "write_all s (p # ps) =
     (case xshellProxy_Write s p of
        (s', _, Some e) \<Rightarrow> (s', Some e)
      | (s', _, None) \<Rightarrow> write_all s' ps)"

subsection \<open>Framing: the abstract view of the two byte streams\<close>

definition frame :: "bytes \<Rightarrow> bytes" where
  "frame m = be_put_uint32 (word_of_nat (length m)) @ m"

definition msg_ok :: "bytes \<Rightarrow> bool" where
  "msg_ok m \<longleftrightarrow> m \<noteq> [] \<and> length m \<le> maxAgentResponseBytes"

text \<open>The complete messages at the front of a byte stream, up to the first one the proxy refuses.\<close>

function split_frames :: "bytes \<Rightarrow> bytes list" where
  "split_frames b =
     (if length b < 4 then []
      else let l = unat (be_uint32 (take 4 b)) in
        if l = 0 \<or> maxAgentResponseBytes < l \<or> length b < 4 + l then []
        else take l (drop 4 b) # split_frames (drop (4 + l) b))"
  by pat_completeness auto
termination
  by (relation "measure length") auto

declare split_frames.simps [simp del]

definition proxy_avail :: "(bytes \<Rightarrow> go_error option) \<Rightarrow> xshellProxy \<Rightarrow> bytes" where
  "proxy_avail us s =
     buf s @ concat (map (frame \<circ> add_flags us) (split_frames (conn_avail (pconn s))))"

lemma unat_length_frame:
  "length m \<le> maxAgentResponseBytes \<Longrightarrow> unat (word_of_nat (length m) :: uint32) = length m"
  by (simp add: unat_of_nat maxAgentResponseBytes_def)

lemma split_frames_Nil [simp]: "split_frames [] = []"
  by (simp add: split_frames.simps)

lemma split_frames_Cons:
  assumes "msg_ok m"
  shows "split_frames (frame m @ rest) = m # split_frames rest"
  using assms
  by (subst split_frames.simps)
     (simp add: frame_def msg_ok_def unat_length_frame Let_def be_uint32_put0)

text \<open>Splitting undoes framing.\<close>

lemma split_frames_concat:
  "list_all msg_ok ms \<Longrightarrow> split_frames (concat (map frame ms)) = ms"
  by (induction ms) (auto simp: split_frames_Cons)

lemma split_framesD:
  assumes "split_frames b = m # ms"
  shows "msg_ok m" and "b = frame m @ drop (4 + length m) b"
    and "ms = split_frames (drop (4 + length m) b)"
    and "be_uint32 (take 4 b) = word_of_nat (length m)" and "4 + length m \<le> length b"
proof -
  let ?l = "unat (be_uint32 (take 4 b))"
  from assms have b: "4 \<le> length b" "?l \<noteq> 0" "?l \<le> maxAgentResponseBytes" "4 + ?l \<le> length b"
    and m: "m = take ?l (drop 4 b)" and ms: "ms = split_frames (drop (4 + ?l) b)"
    by (auto simp: split_frames.simps [of b] Let_def split: if_splits)
  then have len: "length m = ?l" by simp
  show w: "be_uint32 (take 4 b) = word_of_nat (length m)"
    unfolding len by simp
  have "frame m = take 4 b @ m"
    using b unfolding frame_def w [symmetric] by simp
  with m len show "b = frame m @ drop (4 + length m) b"
    using take_take_drop [of 4 b ?l] by simp
  show "msg_ok m" using b len by (auto simp: msg_ok_def)
  show "4 + length m \<le> length b" using b len by simp
  show "ms = split_frames (drop (4 + length m) b)" using ms len by simp
qed

subsection \<open>The proxy is a well-behaved reader\<close>

lemma xshellProxy_Read_buffered:
  assumes "buf s \<noteq> []" and "0 < n"
  shows "\<exists>s' b. xshellProxy_Read us s n = (s', b, None) \<and> b \<noteq> [] \<and> length b \<le> n \<and>
    proxy_avail us s = b @ proxy_avail us s'"
  using assms by (auto simp: xshellProxy_Read_def proxy_avail_def)

lemma length_add_flags: "length (add_flags us m) =
    (if hd m = agentSignRequest \<and> us m \<noteq> None then length m + 4 else length m)"
  by (simp add: add_flags_def)

lemma xshellProxy_Read_next:
  assumes "buf s = []" and "split_frames (conn_avail (pconn s)) = m # ms"
  obtains s' where "xshellProxy_Read us s n = (s', take n (frame (add_flags us m)), None)"
    and "buf s' = drop n (frame (add_flags us m))"
    and "split_frames (conn_avail (pconn s')) = ms"
proof -
  let ?b = "conn_avail (pconn s)"
  note D = split_framesD [OF assms(2)]
  from D(1) have m: "0 < length m" "length m \<le> maxAgentResponseBytes"
    by (auto simp: msg_ok_def)
  then have l: "be_uint32 (take 4 ?b) \<noteq> 0" "unat (be_uint32 (take 4 ?b)) = length m"
    using D(4) by (auto simp: unat_length_frame simp flip: unat_eq_zero)
  have body: "take (length m) (drop 4 ?b) = m"
    using arg_cong [OF D(2), of "\<lambda>b. take (length m) (drop 4 b)"] by (simp add: frame_def)
  let ?full = "frame (add_flags us m)"
  have full: "be_put_uint32 (if hd m = agentSignRequest \<and> us m \<noteq> None
      then be_uint32 (take 4 ?b) + 4 else be_uint32 (take 4 ?b)) @ add_flags us m = ?full"
    using D(4) by (auto simp: frame_def length_add_flags add.commute)
  let ?s = "s\<lparr>pconn := pconn s\<lparr>inp := drop_segs (length m) (drop_segs 4 (inp (pconn s)))\<rparr>,
      buf := drop n ?full\<rparr>"
  have "xshellProxy_Read us s n = (?s, take n ?full, None)"
    using assms(1) m l body D(5)
    by (simp add: xshellProxy_Read_def full Let_def cong: if_cong
        del: take_append drop_append not_None_eq be_put_uint32_inverse)
  moreover have "conn_avail (pconn ?s) = drop (4 + length m) ?b"
    by (simp add: add.commute)
  ultimately show thesis using that D(3) by simp
qed

interpretation xproxy: byte_source "xshellProxy_Read us" "proxy_avail us" "\<lambda>_. True" for us
proof
  fix s :: xshellProxy and n :: nat
  assume n: "0 < n" and av: "proxy_avail us s \<noteq> []"
  show "\<exists>s' b. xshellProxy_Read us s n = (s', b, None) \<and> b \<noteq> [] \<and> length b \<le> n \<and>
      proxy_avail us s = b @ proxy_avail us s' \<and> True"
  proof (cases "buf s = []")
    case False
    with n show ?thesis using xshellProxy_Read_buffered by auto
  next
    case True
    with av obtain m ms where fs: "split_frames (conn_avail (pconn s)) = m # ms"
      by (cases "split_frames (conn_avail (pconn s))") (auto simp: proxy_avail_def)
    obtain s' where s': "xshellProxy_Read us s n = (s', take n (frame (add_flags us m)), None)"
      "buf s' = drop n (frame (add_flags us m))" "split_frames (conn_avail (pconn s')) = ms"
      by (rule xshellProxy_Read_next [OF True fs])
    have "take n (frame (add_flags us m)) \<noteq> []"
      using n by (simp add: frame_def be_put_uint32_def)
    with s' True fs show ?thesis by (simp add: proxy_avail_def)
  qed
qed

subsection \<open>Properties of the handshake\<close>

text \<open>
  The opening bytes of a client that knows the cookie. The length prefix is four less than the
  request the server reads next, and that request may hold any prefix of the cookie (\<open>k\<close> bytes);
  the rest of the cookie follows it.
\<close>

definition hello :: "nat \<Rightarrow> uint32 \<Rightarrow> bytes \<Rightarrow> bytes" where
  "hello k flag cookie = be_put_uint32 (word_of_nat (5 + k)) @ 99 # be_put_uint32 flag @
     be_put_uint32 (word_of_nat (length cookie)) @ cookie"

lemma word32_add4_eq_0: "(w :: uint32) + 4 = 0 \<longleftrightarrow> w = 0xFFFFFFFC"
  by (auto simp: add_eq_0_iff2)

lemmas handshake_splits =
  prod.splits option.splits if_splits list.splits sum.splits

lemma xshellHandshake_Panic:
  "(\<exists>msg. snd (xshellHandshake um ma c cookie) = Panic msg) \<longleftrightarrow>
     4 \<le> length (conn_avail c) \<and> be_uint32 (take 4 (conn_avail c)) = 0xFFFFFFFC"
proof (cases "4 \<le> length (conn_avail c)")
  case False
  then show ?thesis by (simp add: xshellHandshake_def)
next
  case True
  let ?l = "be_uint32 (take 4 (conn_avail c)) + 4"
  have "?l = 0 \<longleftrightarrow> be_uint32 (take 4 (conn_avail c)) = 0xFFFFFFFC"
    by (rule word32_add4_eq_0)
  moreover have "(\<exists>msg. snd (xshellHandshake um ma c cookie) = Panic msg) \<longleftrightarrow> unat ?l = 0"
    using True
    by (auto simp: xshellHandshake_def Let_def conn_ReadFull_None_iff dest!: conn_ReadFull_SomeD
        dest: take_ConsD split: handshake_splits)
  ultimately show ?thesis using True by (simp add: unat_eq_zero)
qed

text \<open>
  Property C13. The handshake panics, taking the whole process down, exactly when a client's first
  four bytes are \<^verbatim>\<open>FF FF FF FC\<close>: adding 4 to that length wraps to 0, the size check passes and
  \<^verbatim>\<open>req[0]\<close> indexes an empty slice. No cookie is needed.
\<close>

theorem xshellHandshake_panics_iff:
  "(\<exists>msg. snd (xshellHandshake um ma c cookie) = Panic msg) \<longleftrightarrow>
     4 \<le> length (conn_avail c) \<and> be_uint32 (take 4 (conn_avail c)) = 0xFFFFFFFC"
  by (rule xshellHandshake_Panic)

text \<open>What a successful handshake has read, stage by stage.\<close>

lemma xshellHandshake_RetD:
  assumes "snd (xshellHandshake um ma c cookie) = Ret ()"
  defines "av \<equiv> conn_avail c"
  defines "l \<equiv> unat (be_uint32 (take 4 av) + 4)"
  obtains m where "4 \<le> length av" and "l \<le> length (drop 4 av)"
    and "um (take l (drop 4 av)) = Inr m"
    and "unat (Length m) = length cookie" and "length (Cookie m) \<le> length cookie"
    and "length cookie - length (Cookie m) \<le> length (drop (4 + l) av)"
    and "Cookie m @ take (length cookie - length (Cookie m)) (drop (4 + l) av) = cookie"
  using assms(1) unfolding av_def l_def
  by (fastforce simp: xshellHandshake_def Let_def conn_ReadFull_None_iff add.commute
      dest: conn_ReadFull_SomeD split: handshake_splits)

lemma length_init_wire [simp]: "length (init_wire m) = 9 + length (Cookie m)"
  by (simp add: init_wire_def)

lemma xshellHandshake_authentic:
  assumes "unmarshals_init um" and "snd (xshellHandshake um ma c cookie) = Ret ()"
  shows "\<exists>k flag rest. k \<le> length cookie \<and> conn_avail c = hello k flag cookie @ rest"
proof -
  let ?av = "conn_avail c"
  let ?l = "unat (be_uint32 (take 4 ?av) + 4)"
  from assms(2) obtain m where av: "4 \<le> length ?av" "?l \<le> length (drop 4 ?av)"
    and um: "um (take ?l (drop 4 ?av)) = Inr m"
    and m: "unat (Length m) = length cookie" "length (Cookie m) \<le> length cookie"
    and ck: "Cookie m @ take (length cookie - length (Cookie m)) (drop (4 + ?l) ?av) = cookie"
    by (rule xshellHandshake_RetD)
  let ?k = "length (Cookie m)"
  have req: "take ?l (drop 4 ?av) = init_wire m"
    using assms(1) um by (auto simp: unmarshals_init_def)
  then have "length (take ?l (drop 4 ?av)) = 9 + ?k"
    by (simp only: length_init_wire)
  then have "?l = 9 + ?k"
    using av(2) by (metis length_take min.absorb2)
  then have "be_uint32 (take 4 ?av) + 4 = word_of_nat (9 + ?k)"
    by (metis of_nat_unat ucast_id)
  then have "be_uint32 (take 4 ?av) = word_of_nat (5 + ?k)"
    by (simp add: eq_diff_eq [symmetric])
  then have pre: "take 4 ?av = be_put_uint32 (word_of_nat (5 + ?k))"
    using av(1) by (metis be_put_uint32_inverse length_take min.absorb2)
  have len: "Length m = word_of_nat (length cookie)"
    using m(1) by (metis of_nat_unat ucast_id)
  define rem where "rem = take (length cookie - ?k) (drop (4 + ?l) ?av)"
  define rest where "rest = drop (length cookie - ?k) (drop (4 + ?l) ?av)"
  have "drop (4 + ?l) ?av = rem @ rest"
    unfolding rem_def rest_def by (rule append_take_drop_id [symmetric])
  with take_take_drop [of 4 ?av ?l] req
  have "?av = take 4 ?av @ init_wire m @ rem @ rest" by simp
  with pre have "?av = be_put_uint32 (word_of_nat (5 + ?k)) @ init_wire m @ rem @ rest" by simp
  moreover have "cookie = Cookie m @ rem" using ck by (simp add: rem_def)
  ultimately have "?av = hello ?k (Flag m) cookie @ rest"
    using len by (simp add: hello_def init_wire_def)
  with m(2) show ?thesis by blast
qed

text \<open>
  Property C21. Authentication: whoever gets through the handshake has sent the agent's cookie, at
  the place the protocol puts it.
\<close>

theorem xshellHandshake_sound:
  assumes "unmarshals_init um" and "snd (xshellHandshake um ma c cookie) = Ret ()"
  shows "\<exists>k flag rest. k \<le> length cookie \<and> conn_avail c = hello k flag cookie @ rest"
  using assms by (rule xshellHandshake_authentic)

text \<open>
  Property C22. Conversely a client that sends the cookie is let in, however the bytes are cut
  into segments: the reply echoes its flag in one framed write and the connection is left at the
  first byte after the handshake.
\<close>

theorem xshellHandshake_complete:
  assumes "unmarshals_init um" and "k \<le> length cookie"
    and "9 + length cookie \<le> maxAgentResponseBytes"
    and "conn_avail c = hello k flag cookie @ rest" and "write_ok c"
  shows "\<exists>c'. xshellHandshake um ma c cookie = (c', Ret ()) \<and> conn_avail c' = rest \<and>
    outp c' = outp c @ [frame (ma flag)]"
proof -
  define m where "m = \<lparr>Flag = flag, Length = word_of_nat (length cookie), Cookie = take k cookie\<rparr>"
  have cl: "length cookie < 2 ^ 32" using assms(3) by (simp add: maxAgentResponseBytes_def)
  then have lenm: "unat (Length m) = length cookie" by (simp add: m_def unat_of_nat)
  have lk: "length (Cookie m) = k" using assms(2) by (simp add: m_def)
  have "9 + k < 2 ^ 32" using assms(2,3) by (simp add: maxAgentResponseBytes_def)
  then have "unat (word_of_nat (9 + k) :: uint32) = 9 + k" by (simp only: unat_of_nat) simp
  then have l: "unat (9 + word_of_nat k :: uint32) = 9 + k" by simp
  have av: "conn_avail c = be_put_uint32 (word_of_nat (5 + k)) @ init_wire m @ drop k cookie @ rest"
    by (simp add: assms(4) hello_def init_wire_def m_def)
  have um: "um (init_wire m) = Inr m" using assms(1) by (simp add: unmarshals_init_def)
  have w: "(case init_wire m of [] \<Rightarrow> A | x # y \<Rightarrow> B x y) = B 99 (tl (init_wire m))" for A B
    by (simp add: init_wire_def)
  have lw: "length (init_wire m) = 9 + k" by (simp add: lk)
  have ck: "Cookie m @ drop k cookie = cookie" "Flag m = flag" by (simp_all add: m_def)
  have mx: "\<not> maxAgentResponseBytes < 9 + k" using assms(2,3) by simp
  let ?c3 = "c\<lparr>inp := drop_segs (length cookie - k) (drop_segs (9 + k) (drop_segs 4 (inp c)))\<rparr>"
  have "xshellHandshake um ma c cookie =
      (case conn_Write ?c3 (frame (ma flag)) of (c4, Some e) \<Rightarrow> (c4, Fail e) | (c4, None) \<Rightarrow> (c4, Ret ()))"
    using assms(2) mx um ck lw
    by (simp add: xshellHandshake_def Let_def av l lenm lk w frame_def)
  moreover have "conn_avail ?c3 = rest"
    using lw by (simp add: av)
  ultimately show ?thesis
    using assms(5) by (simp add: conn_Write_ok)
qed

subsection \<open>Properties of the proxy\<close>

text \<open>
  Property C14. Whatever messages XShell sends and however they are segmented, a client of the
  proxy that fills its buffers with \<^verbatim>\<open>io.ReadFull\<close> reads the same messages, re-framed: a sign
  request that lacks its flags field comes out four zero bytes longer, with its length prefix
  corrected, and every other message unchanged.
\<close>

theorem xshellProxy_Read_stream:
  assumes "list_all msg_ok ms" and "buf s = []"
    and "conn_avail (pconn s) = concat (map frame ms)"
    and "n \<le> length (concat (map (frame \<circ> add_flags us) ms))"
  shows "\<exists>s'. ReadFull (xshellProxy_Read us) s n =
      Some (s', take n (concat (map (frame \<circ> add_flags us) ms)), None) \<and>
      proxy_avail us s' = drop n (concat (map (frame \<circ> add_flags us) ms))"
proof -
  have "proxy_avail us s = concat (map (frame \<circ> add_flags us) ms)"
    using assms(1,2,3) by (simp add: proxy_avail_def split_frames_concat)
  with assms(4) show ?thesis
    by (metis xproxy.ReadFull_avail)
qed

text \<open>
  The write side. While a message is being gathered \<open>wbuf\<close> starts with its length prefix, and
  what went out on the connection so far is a sequence of whole messages.
\<close>

definition is_frame :: "bytes \<Rightarrow> bool" where
  "is_frame w \<longleftrightarrow> 4 \<le> length w \<and> length w = 4 + unat (be_uint32 w)"

definition proxy_inv :: "xshellProxy \<Rightarrow> bool" where
  "proxy_inv s \<longleftrightarrow>
     (\<forall>w \<in> set (outp (pconn s)). is_frame w) \<and>
     (if wlength s = 0 then wbuf s = []
      else 4 \<le> length (wbuf s) \<and> wlength s = 4 + unat (be_uint32 (wbuf s)))"

lemma be_uint32_append: "4 \<le> length b \<Longrightarrow> be_uint32 (b @ c) = be_uint32 b"
  by (auto simp: be_uint32_def nth_append)

lemma proxy_Write_inv:
  assumes "proxy_inv s" and "xshellProxy_Write s p = (s', n, None)"
  shows "proxy_inv s'"
  using assms
  by (auto simp: proxy_inv_def xshellProxy_Write_def Let_def conn_Write_None_iff is_frame_def
      be_uint32_append split: if_splits option.splits prod.splits)

lemma proxy_Write_fails:
  assumes "xshellProxy_Write s p = (s', n, Some e)"
  shows "outp (pconn s') = outp (pconn s)"
  using assms conn_Write_SomeD
  by (fastforce simp: xshellProxy_Write_def Let_def split: if_splits option.splits prod.splits)

text \<open>
  Property C23. XShell takes every TCP segment for one message. Whatever is written through the proxy
  by a caller that stops at the first error, in whatever pieces, each write that reaches the
  connection is one whole length-prefixed message; this includes runs in which \<^verbatim>\<open>conn.Write\<close> fails at
  some point. (A caller that went on after an error could send the bytes of the failed message
  again; \<^verbatim>\<open>ServeAgent\<close> returns.)
\<close>

theorem xshellProxy_Write_inv:
  assumes "proxy_inv s" and "w \<in> set (outp (pconn (fst (write_all s ps))))"
  shows "is_frame w"
  using assms
proof (induction ps arbitrary: s)
  case (Cons p ps)
  obtain s' n r where w: "xshellProxy_Write s p = (s', n, r)" by (metis prod_cases3)
  show ?case
  proof (cases r)
    case None
    then have "proxy_inv s'" using proxy_Write_inv Cons.prems(1) w by blast
    then show ?thesis using Cons w None by simp
  next
    case (Some e)
    then show ?thesis using Cons.prems w proxy_Write_fails [of s p s' n e] by (simp add: proxy_inv_def)
  qed
qed (simp add: proxy_inv_def)

lemma write_all_gather:
  assumes "[] \<notin> set ps" and "ps \<noteq> []" and "wlength s \<noteq> 0"
    and "length (wbuf s @ concat ps) = wlength s" and "write_ok (pconn s)"
  shows "write_all s ps = (s\<lparr>pconn := pconn s\<lparr>outp := outp (pconn s) @ [wbuf s @ concat ps],
      wr_sched := tl (wr_sched (pconn s))\<rparr>, wlength := 0, wbuf := []\<rparr>, None)"
  using assms
proof (induction ps arbitrary: s)
  case Nil
  then show ?case by simp
next
  case (Cons p ps)
  show ?case
  proof (cases "ps = []")
    case True
    with Cons.prems show ?thesis by (simp add: xshellProxy_Write_def conn_Write_ok)
  next
    case False
    then have "concat ps \<noteq> []" using Cons.prems(1) by (metis concat_all_Nil list.set_intros(2))
    then have "0 < length (concat ps)" by blast
    then have "length (wbuf s @ p) < wlength s"
      using Cons.prems(4) unfolding length_append concat.simps by linarith
    then have "xshellProxy_Write s p = (s\<lparr>wbuf := wbuf s @ p\<rparr>, length p, None)"
      using Cons.prems(3) by (simp add: xshellProxy_Write_def)
    with Cons.IH [of "s\<lparr>wbuf := wbuf s @ p\<rparr>"] Cons.prems False show ?thesis by simp
  qed
qed

text \<open>
  A message handed to \<^verbatim>\<open>Write\<close> as its four-byte length and then in any non-empty
  pieces reaches the connection as a single write of the whole frame, and the proxy is idle again.
\<close>

theorem xshellProxy_Write_coalesces:
  assumes "wlength s = 0" and "wbuf s = []" and "write_ok (pconn s)"
    and "[] \<notin> set ps" and "ps \<noteq> []" and "length (concat ps) < 2 ^ 32"
  shows "\<exists>s'. write_all s (be_put_uint32 (word_of_nat (length (concat ps))) # ps) = (s', None) \<and>
    outp (pconn s') = outp (pconn s) @ [frame (concat ps)] \<and> wlength s' = 0 \<and> wbuf s' = []"
proof -
  let ?h = "be_put_uint32 (word_of_nat (length (concat ps)))"
  let ?s = "s\<lparr>wlength := length (concat ps) + 4, wbuf := ?h\<rparr>"
  have "xshellProxy_Write s ?h = (?s, 4, None)"
    using assms(1,2,6) by (simp add: xshellProxy_Write_def unat_of_nat)
  moreover have "write_all ?s ps = (?s\<lparr>pconn := pconn ?s\<lparr>outp := outp (pconn ?s) @ [wbuf ?s @ concat ps],
      wr_sched := tl (wr_sched (pconn ?s))\<rparr>, wlength := 0, wbuf := []\<rparr>, None)"
    using assms by (intro write_all_gather) auto
  ultimately show ?thesis by (simp add: frame_def)
qed

subsection \<open>Witnesses\<close>

text \<open>
  A parser that keeps to the wire format, a client that sends the cookie of this agent in two
  segments, and an idle proxy.
\<close>

definition wire_unmarshal_init :: "bytes \<Rightarrow> go_error + initAgentMsg" where
  "wire_unmarshal_init b =
     (if 9 \<le> length b \<and> hd b = 99
      then Inr \<lparr>Flag = be_uint32 (take 4 (drop 1 b)), Length = be_uint32 (take 4 (drop 5 b)),
                Cookie = drop 9 b\<rparr>
      else Inl (OtherErr 0))"

definition wire_marshal_rep :: "uint32 \<Rightarrow> bytes" where
  "wire_marshal_rep f = 99 # be_put_uint32 f"

definition test_cookie :: bytes where
  "test_cookie = [75, 101, 121, 98, 49, 50, 51]"

definition test_client :: conn where
  "test_client = \<lparr>inp = [take 10 (hello 3 5 test_cookie), drop 10 (hello 3 5 test_cookie) @ [1]],
     rd_err = EOF, outp = [], wr_sched = [], closed = False\<rparr>"

definition idle_proxy :: "bytes list \<Rightarrow> xshellProxy" where
  "idle_proxy segs = \<lparr>pconn = \<lparr>inp = segs, rd_err = EOF, outp = [], wr_sched = [], closed = False\<rparr>,
     buf = [], wlength = 0, wbuf = []\<rparr>"

lemmas eval_conn = conn_ReadFull_def conn_avail_def be_put_uint32_def be_uint32_def Let_def
  conn_Write_def write_ok_def

lemma unmarshals_wire: "unmarshals_init wire_unmarshal_init"
  unfolding unmarshals_init_def
proof (intro conjI allI impI)
  fix m show "wire_unmarshal_init (init_wire m) = Inr m"
    by (simp add: wire_unmarshal_init_def init_wire_def)
next
  fix b m assume "wire_unmarshal_init b = Inr m"
  then have l: "9 \<le> length b" "hd b = 99" and m: "Flag m = be_uint32 (take 4 (drop 1 b))"
    "Length m = be_uint32 (take 4 (drop 5 b))" "Cookie m = drop 9 b"
    by (auto simp: wire_unmarshal_init_def split: if_splits)
  have "b = take 1 b @ take 4 (drop 1 b) @ drop 5 b"
    using take_take_drop [of 1 b 4] by simp
  also have "drop 5 b = take 4 (drop 5 b) @ drop 9 b"
    using append_take_drop_id [of 4 "drop 5 b"] by simp
  also have "take 1 b = [99]" using l by (cases b) auto
  finally show "b = init_wire m" using l by (simp add: init_wire_def m)
qed

theorem xshellHandshake_sound_witness:
  "\<exists>k flag rest. k \<le> length test_cookie \<and> conn_avail test_client = hello k flag test_cookie @ rest"
proof (rule xshellHandshake_sound [OF unmarshals_wire])
  show "snd (xshellHandshake wire_unmarshal_init wire_marshal_rep test_client test_cookie) = Ret ()"
    by (simp add: test_client_def test_cookie_def xshellHandshake_def hello_def eval_conn
        maxAgentResponseBytes_def wire_unmarshal_init_def del: concat_inp)
qed

theorem xshellHandshake_complete_witness:
  "\<exists>c'. xshellHandshake wire_unmarshal_init wire_marshal_rep test_client test_cookie = (c', Ret ()) \<and>
    conn_avail c' = [1] \<and> outp c' = [] @ [frame (wire_marshal_rep 5)]"
proof -
  have "outp test_client = []" by (simp add: test_client_def)
  moreover have "conn_avail test_client = hello 3 5 test_cookie @ [1]"
    by (simp add: test_client_def conn_avail_def del: concat_inp)
  ultimately show ?thesis
    using xshellHandshake_complete [OF unmarshals_wire, of 3 test_cookie test_client 5 "[1]" wire_marshal_rep]
    by (simp add: test_cookie_def maxAgentResponseBytes_def write_ok_def test_client_def)
qed

theorem xshellProxy_Read_stream_witness:
  "\<exists>s'. ReadFull (xshellProxy_Read (\<lambda>b. if length b < 2 then Some EOF else None))
      (idle_proxy [[0, 0, 0, 1], [13, 0, 0, 0, 1, 11]]) 9 =
      Some (s', [0, 0, 0, 5, 13, 0, 0, 0, 0], None) \<and>
      proxy_avail (\<lambda>b. if length b < 2 then Some EOF else None) s' = [0, 0, 0, 1, 11]"
  using xshellProxy_Read_stream [of "[[13], [11]]" "idle_proxy [[0, 0, 0, 1], [13, 0, 0, 0, 1, 11]]" 9
      "\<lambda>b. if length b < 2 then Some EOF else None"]
  by (auto simp: msg_ok_def maxAgentResponseBytes_def idle_proxy_def frame_def be_put_uint32_def
      conn_avail_def add_flags_def agentSignRequest_def simp del: concat_inp)

text \<open>One message gets through, the write of the second one fails.\<close>

theorem xshellProxy_Write_inv_witness:
  "outp (pconn (fst (write_all ((idle_proxy [])\<lparr>pconn := (pconn (idle_proxy []))\<lparr>wr_sched := [None, Some EOF]\<rparr>\<rparr>)
     [[0, 0, 0, 2], [7], [8], [0, 0, 0, 1], [9], [0, 0, 0, 1]]))) = [[0, 0, 0, 2, 7, 8]] \<and> is_frame [0, 0, 0, 2, 7, 8]"
proof -
  let ?s = "(idle_proxy [])\<lparr>pconn := (pconn (idle_proxy []))\<lparr>wr_sched := [None, Some EOF]\<rparr>\<rparr>"
  let ?ps = "[[0, 0, 0, 2], [7], [8], [0, 0, 0, 1], [9], [0, 0, 0, 1]] :: bytes list"
  have o: "outp (pconn (fst (write_all ?s ?ps))) = [[0, 0, 0, 2, 7, 8]]"
    by (simp add: xshellProxy_Write_def idle_proxy_def be_uint32_def conn_Write_def)
  have "proxy_inv ?s" by (simp add: proxy_inv_def idle_proxy_def)
  from xshellProxy_Write_inv [OF this, of "[0, 0, 0, 2, 7, 8]" ?ps] o show ?thesis by simp
qed

theorem xshellProxy_Write_coalesces_witness:
  "\<exists>s'. write_all (idle_proxy []) [[0, 0, 0, 3], [7], [8, 9]] = (s', None) \<and>
    outp (pconn s') = [[0, 0, 0, 3, 7, 8, 9]] \<and> wlength s' = 0 \<and> wbuf s' = []"
  using xshellProxy_Write_coalesces [of "idle_proxy []" "[[7], [8, 9]]"]
  by (auto simp: idle_proxy_def write_ok_def frame_def be_put_uint32_def)

end
