(* ===== verification/Utils_Misc.thy ===== *)
theory Utils_Misc
  imports KB_Prelude
begin

section \<open>Identifiers and cookies (\<^verbatim>\<open>utils/misc.go\<close>)\<close>

text \<open>
  \<^verbatim>\<open>UUIDToString\<close>, the textual form of the secret in a Cygwin socket file, and \<^verbatim>\<open>RandomString\<close>, the
  XShell cookie. A Go string is a list of \<^typ>\<open>char\<close>, one per byte. The bytes that
  \<^verbatim>\<open>crypto/rand\<close> and \<^verbatim>\<open>math/rand\<close> produce are arguments.
\<close>

subsection \<open>\<^verbatim>\<open>UUIDToString\<close>\<close>

definition hextable :: string where
  "hextable = ''0123456789abcdef''"

text \<open>\<^verbatim>\<open>encoding/hex\<close>: two characters a byte, the high half first.\<close>

fun hex_encode :: "bytes \<Rightarrow> string" where
  "hex_encode [] = []"
| "hex_encode (v # vs) =
     hextable ! unat (drop_bit 4 v) # hextable ! unat (v AND 0x0F) # hex_encode vs"

text \<open>Writing \<open>src\<close> into a buffer at an offset: \<^verbatim>\<open>dst[off:off+len(src)] = src\<close>.\<close>

definition put_at :: "nat \<Rightarrow> 'a list \<Rightarrow> 'a list \<Rightarrow> 'a list" where
  "put_at off src dst = take off dst @ src @ drop (off + length src) dst"

definition uuid_step :: "bytes \<Rightarrow> nat \<Rightarrow> string \<Rightarrow> string" where
  "uuid_step uuid i dst =
     (let b = take 4 (drop (i * 4) uuid);
          dst1 = put_at (i * 9) (hex_encode [b ! 3, b ! 2, b ! 1, b ! 0]) dst
      in if i \<noteq> 3 then put_at (9 * i + 8) ''-'' dst1 else dst1)"

definition UUIDToString :: "bytes \<Rightarrow> string" where
  "UUIDToString uuid = fold (uuid_step uuid) [0..<4] (replicate 35 (CHR 0x00))"

subsection \<open>\<^verbatim>\<open>RandomString\<close>\<close>

definition alphanum :: string where
  "alphanum = ''0123456789ABCDEFGHIJKLMNOPQRSTUVWXYZabcdefghijklmnopqrstuvwxyz''"

text \<open>
  \<open>bs\<close>, \<open>num\<close> and \<open>err\<close> are what \<^verbatim>\<open>cryptornd.Read\<close> left in the \<open>n\<close>-byte buffer and returned;
  \<open>intn i\<close> is the result of the call \<^verbatim>\<open>rand.Intn(len(alphanum))\<close> made for position \<open>i\<close>.
\<close>

definition RandomString :: "nat \<Rightarrow> bytes \<Rightarrow> nat \<Rightarrow> go_error option \<Rightarrow> (nat \<Rightarrow> nat) \<Rightarrow> string" where
  "RandomString n bs num err intn =
     (let randby = (num \<noteq> n \<or> err \<noteq> None) in
      map (\<lambda>(i, b). if randby then alphanum ! intn i
                    else alphanum ! unat (b mod of_nat (length alphanum)))
        (enumerate 0 bs))"

subsection \<open>The textual form determines the identifier\<close>

lemma length_hextable [simp]: "length hextable = 16"
  by (simp add: hextable_def)

lemma distinct_hextable: "distinct hextable"
  by (simp add: hextable_def)

lemma nibbles: "unat (drop_bit 4 v) < 16" "unat (v AND 0x0F) < 16" for v :: byte
proof -
  have "unat v < 256" by (rule byte_unat_less)
  then show "unat (drop_bit 4 v) < 16" by (simp add: drop_bit_eq_div unat_div)
  have "v AND 0x0F = take_bit 4 v" by (simp add: take_bit_eq_mask mask_numeral)
  then show "unat (v AND 0x0F) < 16" by (simp add: take_bit_eq_mod unat_mod)
qed

lemma nibbles_inj:
  assumes "unat (drop_bit 4 v) = unat (drop_bit 4 w)" and "unat (v AND 0x0F) = unat (w AND (0x0F :: byte))"
  shows "v = w"
proof -
  have m: "v AND 0x0F = take_bit 4 v" for v :: byte by (simp add: take_bit_eq_mask mask_numeral)
  have "push_bit 4 (drop_bit 4 v) + take_bit 4 v = push_bit 4 (drop_bit 4 w) + take_bit 4 w"
    using assms by (simp add: m flip: word_unat_eq_iff)
  then show ?thesis by (simp add: bits_ident)
qed

lemma hex_char_inj:
  "i < 16 \<Longrightarrow> j < 16 \<Longrightarrow> hextable ! i = hextable ! j \<longleftrightarrow> i = j"
  using distinct_hextable by (simp add: nth_eq_iff_index_eq)

lemma length_hex_encode [simp]: "length (hex_encode bs) = 2 * length bs"
  by (induction bs) auto

lemma hex_encode_inj: "length bs = length cs \<Longrightarrow> hex_encode bs = hex_encode cs \<Longrightarrow> bs = cs"
  by (induction bs cs rule: list_induct2)
     (auto simp: hex_char_inj nibbles intro: nibbles_inj)

text \<open>The four groups, each little-endian, joined by dashes.\<close>

definition uuid_group :: "bytes \<Rightarrow> nat \<Rightarrow> string" where
  "uuid_group uuid i = hex_encode (rev (take 4 (drop (i * 4) uuid)))"

lemma rev_four: "length b = 4 \<Longrightarrow> [b ! 3, b ! 2, b ! 1, b ! 0] = rev b"
  by (auto elim!: four_bytesE)

lemma UUIDToString_groups:
  assumes "length uuid = 16"
  shows "UUIDToString uuid = uuid_group uuid 0 @ ''-'' @ uuid_group uuid 1 @ ''-'' @
    uuid_group uuid 2 @ ''-'' @ uuid_group uuid 3"
proof -
  have g: "length (uuid_group uuid i) = 8" if "i < 4" for i
    using assms that by (simp add: uuid_group_def)
  have e: "hex_encode [take 4 (drop (i * 4) uuid) ! 3, take 4 (drop (i * 4) uuid) ! 2,
      take 4 (drop (i * 4) uuid) ! 1, take 4 (drop (i * 4) uuid) ! 0] = uuid_group uuid i" if "i < 4" for i
    using assms that by (subst rev_four) (simp_all add: uuid_group_def)
  have s: "uuid_step uuid i dst = (if i \<noteq> 3 then put_at (9 * i + 8) ''-'' (put_at (i * 9) (uuid_group uuid i) dst)
      else put_at (i * 9) (uuid_group uuid i) dst)" if "i < 4" for i dst
    unfolding uuid_step_def Let_def e [OF that] ..
  have "[0..<4] = [0, 1, 2, 3 :: nat]" by (simp add: upt_rec)
  then show ?thesis
    by (simp add: UUIDToString_def s put_at_def g drop_replicate)
qed

lemma UUIDToString_eqD:
  assumes "length u = 16" and "length v = 16" and "UUIDToString u = UUIDToString v"
  shows "u = v"
proof -
  have g: "length (uuid_group w i) = 8" if "length w = 16" "i < 4" for w i
    using that by (simp add: uuid_group_def)
  have "uuid_group u i = uuid_group v i" if "i < 4" for i
  proof -
    have "i = 0 \<or> i = 1 \<or> i = 2 \<or> i = 3" using that by auto
    then show ?thesis
      using assms(3) g [OF assms(1)] g [OF assms(2)]
      by (auto simp: UUIDToString_groups [OF assms(1)] UUIDToString_groups [OF assms(2)])
  qed
  then have eq: "take 4 (drop (i * 4) u) = take 4 (drop (i * 4) v)" if "i < 4" for i
    using that assms hex_encode_inj [of "rev (take 4 (drop (i * 4) u))" "rev (take 4 (drop (i * 4) v))"]
    by (simp add: uuid_group_def)
  have split: "w = take 4 w @ take 4 (drop 4 w) @ take 4 (drop 8 w) @ take 4 (drop 12 w)"
    if "length w = 16" for w :: bytes
    using that take_take_drop [of 4 w 4] take_take_drop [of 4 "drop 8 w" 4] by simp
  show "u = v"
    using split [OF assms(1)] split [OF assms(2)] eq [of 0] eq [of 1] eq [of 2] eq [of 3] by simp
qed

lemma length_UUIDToString: "length u = 16 \<Longrightarrow> length (UUIDToString u) = 35"
  by (simp add: UUIDToString_groups uuid_group_def)

text \<open>
  The text of an identifier is 35 characters and determines the 16 bytes: no two
  secrets are written the same way into a socket file.
\<close>

theorem UUIDToString_inj:
  assumes "length u = 16" and "length v = 16" and "UUIDToString u = UUIDToString v"
  shows "u = v \<and> length (UUIDToString u) = 35"
  using assms UUIDToString_eqD length_UUIDToString by blast

theorem UUIDToString_inj_witness:
  "[0, 1, 2, 3, 4, 5, 6, 7, 8, 9, 10, 11, 12, 13, 14, 15] =
     map (word_of_nat :: nat \<Rightarrow> byte) [0..<16] \<and>
   length (UUIDToString [0, 1, 2, 3, 4, 5, 6, 7, 8, 9, 10, 11, 12, 13, 14, 15]) = 35"
proof -
  have u: "map (word_of_nat :: nat \<Rightarrow> byte) [0..<16] = [0, 1, 2, 3, 4, 5, 6, 7, 8, 9, 10, 11, 12, 13, 14, 15]"
    by (simp add: upt_rec)
  show ?thesis
    using UUIDToString_inj [of "[0, 1, 2, 3, 4, 5, 6, 7, 8, 9, 10, 11, 12, 13, 14, 15]"
        "map word_of_nat [0..<16]"] by (simp add: u)
qed

subsection \<open>Random strings\<close>

lemma length_alphanum [simp]: "length alphanum = 62"
  by (simp add: alphanum_def)

lemma unat_mod_62: "unat ((b :: byte) mod 62) = unat b mod 62"
  by (simp add: unat_mod)

text \<open>
  A random string has the requested length and only alphanumeric characters, on both
  the \<^verbatim>\<open>crypto/rand\<close> path and the \<^verbatim>\<open>math/rand\<close> fallback, provided \<^verbatim>\<open>rand.Intn(k)\<close> stays below
  \<open>k\<close>.
\<close>

theorem RandomString_alphanumeric:
  assumes "length bs = n" and "\<And>i. intn i < 62"
  shows "length (RandomString n bs num err intn) = n \<and>
    set (RandomString n bs num err intn) \<subseteq> set alphanum"
proof -
  have "alphanum ! unat (b mod 62) \<in> set alphanum" for b :: byte
    by (rule nth_mem) (simp add: unat_mod_62)
  moreover have "alphanum ! intn i \<in> set alphanum" for i
    using assms(2) by simp
  ultimately show ?thesis
    using assms(1) by (auto simp: RandomString_def)
qed

theorem RandomString_alphanumeric_witness:
  "length (RandomString 7 [0, 35, 61, 62, 100, 200, 255] 7 None (\<lambda>i. 0)) = 7 \<and>
   set (RandomString 7 [0, 35, 61, 62, 100, 200, 255] 7 None (\<lambda>i. 0)) \<subseteq> set alphanum"
  by (rule RandomString_alphanumeric) simp_all

text \<open>
  How far from uniform the cookie's characters are: reducing a byte modulo 62 gives
  each of the first eight characters five of the 256 byte values and every other one four.
\<close>

theorem RandomString_bias:
  assumes "j < 62"
  shows "card {b :: byte. RandomString 1 [b] 1 None intn = [alphanum ! j]} = (if j < 8 then 5 else 4)"
proof -
  have d: "distinct alphanum" by (simp add: alphanum_def)
  have "{b :: byte. RandomString 1 [b] 1 None intn = [alphanum ! j]} = {b. unat b mod 62 = j}"
    using assms d
    by (auto simp: RandomString_def enumerate_eq_zip unat_mod_62 nth_eq_iff_index_eq)
  also have "\<dots> = word_of_nat ` {k. k < 256 \<and> k mod 62 = j}"
  proof (intro equalityI subsetI)
    fix b :: byte assume "b \<in> {b. unat b mod 62 = j}"
    then show "b \<in> word_of_nat ` {k. k < 256 \<and> k mod 62 = j}"
      using byte_unat_less [of b] by (intro image_eqI [of _ _ "unat b"]) auto
  qed (auto simp: unat_of_nat)
  also have "card \<dots> = card {k. k < 256 \<and> k mod 62 = j}"
  proof (rule card_image, rule inj_onI)
    fix x y :: nat
    assume "x \<in> {k. k < 256 \<and> k mod 62 = j}" "y \<in> {k. k < 256 \<and> k mod 62 = j}"
      and "(word_of_nat x :: byte) = word_of_nat y"
    then have "unat (word_of_nat x :: byte) = unat (word_of_nat y :: byte)" "x < 256" "y < 256" by auto
    then show "x = y" by (simp add: unat_of_nat)
  qed
  also have "{k. k < 256 \<and> k mod 62 = j} = (\<lambda>q. j + 62 * q) ` {..<(if j < 8 then 5 else 4)}"
  proof (intro equalityI subsetI)
    fix k assume "k \<in> {k. k < 256 \<and> k mod 62 = j}"
    then have "k = j + 62 * (k div 62)" "k div 62 < (if j < 8 then 5 else 4)"
      using mod_mult_div_eq [of k 62] by auto
    then show "k \<in> (\<lambda>q. j + 62 * q) ` {..<(if j < 8 then 5 else 4)}" by blast
  next
    fix k assume "k \<in> (\<lambda>q. j + 62 * q) ` {..<(if j < 8 then 5 else 4)}"
    then show "k \<in> {k. k < 256 \<and> k mod 62 = j}" using assms by (auto split: if_splits)
  qed
  also have "card \<dots> = (if j < 8 then 5 else 4)"
    by (subst card_image) (auto intro: inj_onI)
  finally show ?thesis .
qed

theorem RandomString_bias_witness:
  "card {b :: byte. RandomString 1 [b] 1 None (\<lambda>i. 0) = [alphanum ! 10]} = 4"
  using RandomString_bias [of 10 "\<lambda>i. 0"] by simp

end
