(* ===== verification/Utils_Security.thy ===== *)
theory Utils_Security
  imports KB_Prelude
begin

section \<open>Process and object owners (\<^verbatim>\<open>utils/security.go\<close>, \<^verbatim>\<open>utils/tcpowner.go\<close>)\<close>

text \<open>
  Who owns a kernel object, and who sits at the other end of a loopback TCP connection. The
  answers of the Win32 API (\<^verbatim>\<open>golang.org/x/sys/windows\<close>, \<^verbatim>\<open>iphlpapi\<close>) are arguments; a security
  identifier is the byte string it consists of, and \<^verbatim>\<open>windows.EqualSid\<close> compares those.
\<close>

type_synonym sid = bytes
type_synonym handle = nat

record sec_api =
  TokenUser :: "sid outcome"
  SecurityInfo :: "handle \<Rightarrow> nat outcome"
  OwnerOf :: "nat \<Rightarrow> sid outcome"
  CurrentProcess :: handle

definition GetUserSID :: "sec_api \<Rightarrow> sid outcome" where
  "GetUserSID api = (case TokenUser api of Ret s \<Rightarrow> Ret s | Fail e \<Rightarrow> Fail e | Panic m \<Rightarrow> Panic m)"

definition GetHandleSID :: "sec_api \<Rightarrow> handle \<Rightarrow> sid outcome" where
  "GetHandleSID api h =
     (case SecurityInfo api h of
        Fail e \<Rightarrow> Fail e
      | Panic m \<Rightarrow> Panic m
      | Ret sd \<Rightarrow> (case OwnerOf api sd of Fail e \<Rightarrow> Fail e | Panic m \<Rightarrow> Panic m | Ret s \<Rightarrow> Ret s))"

definition GetDefaultSID :: "sec_api \<Rightarrow> sid outcome" where
  "GetDefaultSID api = GetHandleSID api (CurrentProcess api)"

text \<open>\<open>sys\<close> is \<^verbatim>\<open>syscall.SetFileAttributes\<close>.\<close>

definition SetFileAttributes :: "(string \<Rightarrow> uint32 \<Rightarrow> go_error option) \<Rightarrow> string \<Rightarrow> uint32 \<Rightarrow> go_error option" where
  "SetFileAttributes sys path attr = (if has_nul path then Some EINVAL else sys path attr)"

subsection \<open>The TCP table\<close>

record mibTcpRowOwnerPid =
  State :: uint32
  LocalAddr :: uint32
  LocalPort :: uint32
  RemoteAddr :: uint32
  RemotePort :: uint32
  OwningPid :: uint32

definition swapPort :: "uint32 \<Rightarrow> uint16" where
  "swapPort p = ucast ((drop_bit 8 p AND 0xFF) OR (push_bit 8 p AND 0xFF00))"

definition rowSize :: uint32 where
  "rowSize = 24"

text \<open>
  Casting \<^verbatim>\<open>&buf[off]\<close> to a row pointer and reading it: Go checks that \<open>off\<close> is inside the slice
  (a panic otherwise), but not that the 24 bytes of the row are, so a row that sticks out is a read
  of foreign memory, here a panic of its own.
\<close>

definition u32_at :: "bytes \<Rightarrow> nat \<Rightarrow> uint32" where
  "u32_at b k = le_uint32 (take 4 (drop k b))"

definition row_of :: "bytes \<Rightarrow> nat \<Rightarrow> mibTcpRowOwnerPid" where
  "row_of b off = \<lparr>State = u32_at b off, LocalAddr = u32_at b (off + 4), LocalPort = u32_at b (off + 8),
     RemoteAddr = u32_at b (off + 12), RemotePort = u32_at b (off + 16), OwningPid = u32_at b (off + 20)\<rparr>"

definition row_at :: "bytes \<Rightarrow> nat \<Rightarrow> mibTcpRowOwnerPid outcome" where
  "row_at b off =
     (if length b \<le> off then Panic ''index out of range''
      else if length b < off + 24 then Panic ''read past the buffer''
      else Ret (row_of b off))"

text \<open>The loop over the rows; \<open>i\<close>, \<open>off\<close> and the length are \<^verbatim>\<open>uint32\<close> and wrap.\<close>

function scan_rows :: "bytes \<Rightarrow> uint32 \<Rightarrow> uint16 \<Rightarrow> uint32 \<Rightarrow> uint32 outcome" where
  "scan_rows b numEntries localPort i =
     (if i < numEntries then
        (let off = 4 + i * rowSize in
         if word_of_nat (length b) < off + rowSize
         then Fail (Errorf (''no TCP table entry for local port '' @ dec (unat localPort)))
         else case row_at b (unat off) of
           Panic m \<Rightarrow> Panic m
         | Fail e \<Rightarrow> Fail e
         | Ret row \<Rightarrow>
             if swapPort (LocalPort row) = localPort then Ret (OwningPid row)
             else scan_rows b numEntries localPort (i + 1))
      else Fail (Errorf (''no TCP table entry for local port '' @ dec (unat localPort))))"
  by pat_completeness auto
termination
  by (relation "measure (\<lambda>(b, n, p, i). unat n - unat i)")
     (auto simp: unat_inc word_less_nat_alt intro!: diff_less_mono2)

declare scan_rows.simps [simp del]

text \<open>
  \<^verbatim>\<open>GetExtendedTcpTable\<close>: call number \<open>k\<close> with a buffer of \<open>sz\<close> bytes (call 0 has none) answers
  with its return code, the size it wants and the buffer's contents afterwards.
\<close>

type_synonym tcp_api = "nat \<Rightarrow> uint32 \<Rightarrow> nat \<times> uint32 \<times> bytes"

definition errInsufficientBuffer :: nat where
  "errInsufficientBuffer = 122"

text \<open>The attempts left, the number of the next call, the size to ask for.\<close>

fun get_table :: "tcp_api \<Rightarrow> nat \<Rightarrow> nat \<Rightarrow> uint32 \<Rightarrow> bytes outcome" where
  "get_table api 0 k sz = Fail (Errorf ''GetExtendedTcpTable: table kept growing, giving up'')"
| "get_table api (Suc n) k sz =
     (if sz = 0 then Panic ''index out of range [0] with length 0''
      else case api k sz of (r0, sz1, buf) \<Rightarrow>
        if r0 = 0 then Ret buf
        else if r0 = errInsufficientBuffer then get_table api n (Suc k) sz1
        else Fail (Errorf (''GetExtendedTcpTable failed: '' @ dec r0)))"

definition tcpConnOwnerPID :: "tcp_api \<Rightarrow> uint16 \<Rightarrow> uint32 outcome" where
  "tcpConnOwnerPID api localPort =
     (case api 0 0 of (_, sz, _) \<Rightarrow>
        if sz = 0 then Fail (Errorf ''GetExtendedTcpTable: could not determine buffer size'')
        else case get_table api 3 1 sz of
          Panic m \<Rightarrow> Panic m
        | Fail e \<Rightarrow> Fail e
        | Ret buf \<Rightarrow>
            if length buf < 4 then Fail (Errorf ''GetExtendedTcpTable: short buffer'')
            else scan_rows buf (le_uint32 (take 4 buf)) localPort 0)"

subsection \<open>The peer's user\<close>

text \<open>
  What \<^verbatim>\<open>SameUserTCPConn\<close> asks the system, and the handles it opens and closes, in order.
\<close>

datatype handle_event = OpenedProcess handle | OpenedToken handle | ClosedToken handle | ClosedProcess handle

record owner_api =
  remote_port :: "nat option"
  tcp_table :: tcp_api
  OpenProcess :: "uint32 \<Rightarrow> handle outcome"
  OpenProcessToken :: "handle \<Rightarrow> handle outcome"
  GetTokenUser :: "handle \<Rightarrow> sid outcome"
  security :: sec_api

definition SameUserTCPConn :: "owner_api \<Rightarrow> handle_event list \<times> bool outcome" where
  "SameUserTCPConn api =
     (case remote_port api of
        None \<Rightarrow> ([], Fail (Errorf ''SameUserTCPConn: not a TCP connection''))
      | Some port \<Rightarrow>
          (case tcpConnOwnerPID (tcp_table api) (word_of_nat port) of
             Fail e \<Rightarrow> ([], Fail e)
           | Panic m \<Rightarrow> ([], Panic m)
           | Ret pid \<Rightarrow>
               (case OpenProcess api pid of
                  Fail e \<Rightarrow> ([], Fail e)
                | Panic m \<Rightarrow> ([], Panic m)
                | Ret proc \<Rightarrow>
                    (case OpenProcessToken api proc of
                       Fail e \<Rightarrow> ([OpenedProcess proc, ClosedProcess proc], Fail e)
                     | Panic m \<Rightarrow> ([OpenedProcess proc, ClosedProcess proc], Panic m)
                     | Ret token \<Rightarrow>
                         ([OpenedProcess proc, OpenedToken token, ClosedToken token, ClosedProcess proc],
                          (case GetTokenUser api token of
                             Fail e \<Rightarrow> Fail e
                           | Panic m \<Rightarrow> Panic m
                           | Ret user \<Rightarrow>
                               (case GetUserSID (security api) of
                                  Fail e \<Rightarrow> Fail e
                                | Panic m \<Rightarrow> Panic m
                                | Ret ours \<Rightarrow> Ret (user = ours))))))))"

subsection \<open>Properties\<close>

text \<open>
  \<^verbatim>\<open>swapPort\<close> undoes the packing of the table: a port field whose first two bytes in
  memory are \<open>hi\<close> and \<open>lo\<close> is port \<open>256 * hi + lo\<close>, whatever the other two bytes hold.
\<close>

theorem swapPort_network_order:
  "swapPort (le_uint32 [hi, lo, x, y]) = push_bit 8 (ucast hi) OR ucast lo" (is "?l = ?r")
proof (rule bit_word_eqI)
  have m: "(0xFF :: uint32) = mask 8" "(0xFF00 :: uint32) = push_bit 8 (mask 8)"
    by (simp_all add: mask_numeral push_bit_numeral)
  fix n assume "n < LENGTH(16)"
  then consider "n < 8" | "8 \<le> n" "n < 16" by fastforce
  then show "bit ?l n = bit ?r n"
    by cases (auto simp: swapPort_def le_uint32_def m bit_simps byte_bit_high)
qed

text \<open>The rows a table of this size really holds.\<close>

definition table_rows :: "bytes \<Rightarrow> uint32 \<Rightarrow> mibTcpRowOwnerPid list" where
  "table_rows b n = map (\<lambda>k. row_of b (4 + 24 * k)) [0..<min (unat n) ((length b - 4) div 24)]"

lemma offset_no_wrap:
  assumes "28 + 24 * unat i < 2 ^ 32"
  shows "unat (4 + i * rowSize) = 4 + 24 * unat i"
    and "unat (4 + i * rowSize + rowSize) = 28 + 24 * unat i"
proof -
  have m: "unat (i * rowSize) = 24 * unat i"
    using assms by (simp add: rowSize_def unat_word_ariths)
  then show o: "unat (4 + i * rowSize) = 4 + 24 * unat i"
    using assms by (simp add: unat_word_ariths(1) [of 4])
  have "unat (4 + i * rowSize + rowSize) = (4 + 24 * unat i + 24) mod 2 ^ LENGTH(32)"
    by (simp only: unat_word_ariths(1) [of "4 + i * rowSize" rowSize] o) (simp add: rowSize_def)
  then show "unat (4 + i * rowSize + rowSize) = 28 + 24 * unat i"
    using assms by simp
qed

lemma scan_rows_from:
  assumes "4 \<le> length b" and "length b + 24 < 2 ^ 32" and "24 * unat i \<le> length b - 4"
  shows "scan_rows b n port i =
    (case find (\<lambda>r. swapPort (LocalPort r) = port)
        (map (\<lambda>k. row_of b (4 + 24 * k)) [unat i..<min (unat n) ((length b - 4) div 24)]) of
       Some r \<Rightarrow> Ret (OwningPid r)
     | None \<Rightarrow> Fail (Errorf (''no TCP table entry for local port '' @ dec (unat port))))"
  using assms
proof (induction b n port i rule: scan_rows.induct)
  case (1 b n port i)
  let ?M = "min (unat n) ((length b - 4) div 24)"
  let ?off = "4 + i * rowSize"
  have nw: "28 + 24 * unat i < 2 ^ 32" using "1.prems" by simp
  note off = offset_no_wrap [OF nw]
  have len: "unat (word_of_nat (length b) :: uint32) = length b"
    using "1.prems" by (simp add: unat_of_nat)
  show ?case
  proof (cases "i < n \<and> 28 + 24 * unat i \<le> length b")
    case False
    then have "?M \<le> unat i"
      using "1.prems" by (auto simp: word_less_nat_alt)
    moreover have "i < n \<Longrightarrow> word_of_nat (length b) < ?off + rowSize"
      using False by (simp add: word_less_nat_alt len off)
    ultimately show ?thesis
      by (subst scan_rows.simps) (auto simp: Let_def)
  next
    case True
    then have fits: "\<not> word_of_nat (length b) < ?off + rowSize"
      by (simp add: word_less_nat_alt len off)
    have row: "row_at b (unat ?off) = Ret (row_of b (4 + 24 * unat i))"
      using True by (simp add: row_at_def off)
    have "unat i < ?M"
      using True "1.prems" by (auto simp: word_less_nat_alt)
    then have upt: "[unat i..<?M] = unat i # [unat (i + 1)..<?M]"
      using True unat_inc [of i n] by (simp add: upt_conv_Cons)
    have IH: "scan_rows b n port (i + 1) =
      (case find (\<lambda>r. swapPort (LocalPort r) = port)
          (map (\<lambda>k. row_of b (4 + 24 * k)) [unat (i + 1)..<?M]) of
         Some r \<Rightarrow> Ret (OwningPid r)
       | None \<Rightarrow> Fail (Errorf (''no TCP table entry for local port '' @ dec (unat port))))"
      if "swapPort (LocalPort (row_of b (4 + 24 * unat i))) \<noteq> port"
      using True fits that "1.prems" unat_inc [of i n] row
      by (intro "1.IH" [OF _ refl]) auto
    show ?thesis
      using True fits by (subst scan_rows.simps) (simp add: Let_def row upt IH)
  qed
qed

text \<open>
  In a table of less than 4 GiB the search stays inside the buffer and returns the
  owner of the first row whose local port matches, or reports that there is none; rows beyond the
  buffer are ignored even when the entry count claims them.
\<close>

theorem scan_rows_finds_first:
  assumes "4 \<le> length b" and "length b + 24 < 2 ^ 32"
  shows "scan_rows b n port 0 =
    (case find (\<lambda>r. swapPort (LocalPort r) = port) (table_rows b n) of
       Some r \<Rightarrow> Ret (OwningPid r)
     | None \<Rightarrow> Fail (Errorf (''no TCP table entry for local port '' @ dec (unat port))))"
  using scan_rows_from [of b 0 n port] assms by (simp add: table_rows_def)

text \<open>
  The retry loop around \<^verbatim>\<open>GetExtendedTcpTable\<close> makes at most three attempts and gives up
  when the table outgrows the buffer each time.
\<close>

theorem get_table_gives_up:
  assumes "\<And>k sz. api k sz = (errInsufficientBuffer, grow k, [])" and "\<And>k. grow k \<noteq> 0" and "sz \<noteq> 0"
  shows "get_table api n k sz = Fail (Errorf ''GetExtendedTcpTable: table kept growing, giving up'')"
  using assms(3)
  by (induction n arbitrary: k sz) (simp_all add: assms errInsufficientBuffer_def)

text \<open>A table that the retry loop returns is one that the system handed out.\<close>

lemma get_table_from: "get_table api n k sz = Ret buf \<Longrightarrow> \<exists>k sz sz1. api k sz = (0, sz1, buf)"
  by (induction api n k sz rule: get_table.induct) (auto split: if_splits prod.splits)

definition handles_closed :: "handle_event list \<Rightarrow> bool" where
  "handles_closed es \<longleftrightarrow> (\<forall>h. count_list es (OpenedProcess h) = count_list es (ClosedProcess h) \<and>
     count_list es (OpenedToken h) = count_list es (ClosedToken h))"

text \<open>
  Property C36. The peer check: on every path it closes exactly the handles it opened; and when it
  answers yes or no, it does so from the first row of the system's TCP table whose local port is the
  port of the peer - whatever address that row has - by comparing the user of the process that this
  row names with the user of this process. (The table has less than 4 GiB, as its size is a 32-bit
  number.)
\<close>

theorem SameUserTCPConn_correct:
  assumes "\<forall>k sz. length (snd (snd (tcp_table api k sz))) + 24 < 2 ^ 32"
  shows "handles_closed (fst (SameUserTCPConn api)) \<and>
    (snd (SameUserTCPConn api) = Ret same \<longrightarrow>
      (\<exists>port k sz sz1 buf row proc token user ours.
        remote_port api = Some port \<and> tcp_table api k sz = (0, sz1, buf) \<and>
        find (\<lambda>r. swapPort (LocalPort r) = word_of_nat port) (table_rows buf (le_uint32 (take 4 buf))) = Some row \<and>
        OpenProcess api (OwningPid row) = Ret proc \<and> OpenProcessToken api proc = Ret token \<and>
        GetTokenUser api token = Ret user \<and> GetUserSID (security api) = Ret ours \<and> same = (user = ours)))"
proof -
  have peer: "\<exists>port pid proc token user ours. remote_port api = Some port \<and> tcpConnOwnerPID (tcp_table api) (word_of_nat port) = Ret pid \<and>
      OpenProcess api pid = Ret proc \<and> OpenProcessToken api proc = Ret token \<and>
      GetTokenUser api token = Ret user \<and> GetUserSID (security api) = Ret ours \<and> same = (user = ours)"
    if "snd (SameUserTCPConn api) = Ret same"
    using that by (auto simp: SameUserTCPConn_def split: option.splits outcome.splits)
  have table: "\<exists>k sz sz1 buf row. tcp_table api k sz = (0, sz1, buf) \<and> pid = OwningPid row \<and>
      find (\<lambda>r. swapPort (LocalPort r) = port) (table_rows buf (le_uint32 (take 4 buf))) = Some row"
    if owner: "tcpConnOwnerPID (tcp_table api) port = Ret pid" for port pid
  proof -
    obtain sz buf where t: "get_table (tcp_table api) 3 1 sz = Ret buf" "4 \<le> length buf"
        "scan_rows buf (le_uint32 (take 4 buf)) port 0 = Ret pid"
      using owner by (auto simp: tcpConnOwnerPID_def split: prod.splits if_splits outcome.splits)
    obtain k sz sz1 where k: "tcp_table api k sz = (0, sz1, buf)" using get_table_from [OF t(1)] by blast
    then have "length buf + 24 < 2 ^ 32" using assms by (metis snd_conv)
    with t obtain row where "pid = OwningPid row"
        "find (\<lambda>r. swapPort (LocalPort r) = port) (table_rows buf (le_uint32 (take 4 buf))) = Some row"
      using scan_rows_from [of buf 0 "le_uint32 (take 4 buf)" port] by (auto simp flip: table_rows_def split: option.splits)
    with k show ?thesis by blast
  qed
  have "\<exists>port k sz sz1 buf row proc token user ours.
        remote_port api = Some port \<and> tcp_table api k sz = (0, sz1, buf) \<and>
        find (\<lambda>r. swapPort (LocalPort r) = word_of_nat port) (table_rows buf (le_uint32 (take 4 buf))) = Some row \<and>
        OpenProcess api (OwningPid row) = Ret proc \<and> OpenProcessToken api proc = Ret token \<and>
        GetTokenUser api token = Ret user \<and> GetUserSID (security api) = Ret ours \<and> same = (user = ours)"
    if r: "snd (SameUserTCPConn api) = Ret same"
  proof -
    from peer [OF r] obtain port pid proc token user ours where
      p: "remote_port api = Some port" "tcpConnOwnerPID (tcp_table api) (word_of_nat port) = Ret pid" and
      q: "OpenProcess api pid = Ret proc" "OpenProcessToken api proc = Ret token" "GetTokenUser api token = Ret user"
        "GetUserSID (security api) = Ret ours" "same = (user = ours)" by blast
    from table [OF p(2)] obtain k sz sz1 buf row where
      "tcp_table api k sz = (0, sz1, buf)" "pid = OwningPid row"
      "find (\<lambda>r. swapPort (LocalPort r) = word_of_nat port) (table_rows buf (le_uint32 (take 4 buf))) = Some row" by blast
    with p(1) q show ?thesis by blast
  qed
  moreover have "handles_closed (fst (SameUserTCPConn api))"
    by (auto simp: SameUserTCPConn_def handles_closed_def split: option.splits outcome.splits)
  ultimately show ?thesis by blast
qed

subsection \<open>Witnesses\<close>

text \<open>A table of two rows: port 80 owned by process 4, port 443 owned by process 9.\<close>

definition test_table :: bytes where
  "test_table = [2, 0, 0, 0] @
     [2, 0, 0, 0, 127, 0, 0, 1, 0, 80, 0, 0, 0, 0, 0, 0, 0, 0, 0, 0, 4, 0, 0, 0] @
     [2, 0, 0, 0, 127, 0, 0, 1, 1, 187, 0, 0, 0, 0, 0, 0, 0, 0, 0, 0, 9, 0, 0, 0]"

definition test_owner :: owner_api where
  "test_owner = \<lparr>remote_port = Some 80, tcp_table = (\<lambda>k sz. (0, 52, test_table)),
     OpenProcess = (\<lambda>p. Ret 1), OpenProcessToken = (\<lambda>h. Ret 2), GetTokenUser = (\<lambda>t. Ret [1, 5]),
     security = \<lparr>TokenUser = Ret [1, 5], SecurityInfo = (\<lambda>h. Ret 0), OwnerOf = (\<lambda>d. Ret [1, 5]),
       CurrentProcess = 0\<rparr>\<rparr>"

theorem scan_rows_finds_first_witness:
  "scan_rows test_table 2 80 0 = Ret 4"
proof -
  have "table_rows test_table 2 = [row_of test_table 4, row_of test_table 28]"
    by (simp add: table_rows_def test_table_def upt_rec)
  moreover have "LocalPort (row_of test_table 4) = 0x5000" "OwningPid (row_of test_table 4) = 4"
    by (simp_all add: row_of_def u32_at_def test_table_def le_uint32_def)
  ultimately show ?thesis
    using scan_rows_finds_first [of test_table 2 80]
    by (simp add: test_table_def swapPort_def)
qed

theorem get_table_gives_up_witness:
  "get_table (\<lambda>k sz. (122, 8, [])) 3 1 8 =
     Fail (Errorf ''GetExtendedTcpTable: table kept growing, giving up'')"
  by (rule get_table_gives_up [where grow = "\<lambda>k. 8"]) (simp_all add: errInsufficientBuffer_def)

theorem SameUserTCPConn_correct_witness:
  "snd (SameUserTCPConn test_owner) = Ret True \<and>
   (\<exists>k sz sz1 buf row. tcp_table test_owner k sz = (0, sz1, buf) \<and>
      find (\<lambda>r. swapPort (LocalPort r) = 80) (table_rows buf (le_uint32 (take 4 buf))) = Some row)"
proof -
  have t: "tcpConnOwnerPID (tcp_table test_owner) 80 = Ret 4"
    by (simp add: tcpConnOwnerPID_def test_owner_def test_table_def le_uint32_def scan_rows.simps
        rowSize_def row_at_def row_of_def u32_at_def swapPort_def numeral_3_eq_3)
  then have r: "snd (SameUserTCPConn test_owner) = Ret True"
    by (simp add: SameUserTCPConn_def GetUserSID_def) (simp add: test_owner_def GetUserSID_def)
  have "\<forall>k sz. length (snd (snd (tcp_table test_owner k sz))) + 24 < 2 ^ 32" "remote_port test_owner = Some 80"
    by (simp_all add: test_owner_def test_table_def)
  with SameUserTCPConn_correct [of test_owner True] r obtain k sz sz1 buf row where
    "tcp_table test_owner k sz = (0, sz1, buf)"
    "find (\<lambda>r. swapPort (LocalPort r) = 80) (table_rows buf (le_uint32 (take 4 buf))) = Some row"
    by auto
  with r show ?thesis by blast
qed

end
