(* ===== verification/App_Cygwin.thy ===== *)
theory App_Cygwin
  imports Go_IO Utils_Misc Utils_Security
begin

section \<open>The Cygwin transport (\<^verbatim>\<open>app/cygwin.go\<close>)\<close>

text \<open>
  Cygwin emulates a Unix socket by a TCP port and a system file that names the port and a 128-bit
  secret. \<open>createCygwinSocket\<close> writes that file, \<open>cygwinHandshake\<close> admits a client that sends the
  secret back. The file system is a map from paths to file contents; what the operating system
  answers (opening the file, random bytes, setting attributes) is an argument.
\<close>

record cygwin_os =
  open_err :: "go_error option"
  rand_bytes :: bytes
  rand_err :: "go_error option"
  write_fails :: bool
  set_attr :: "string \<Rightarrow> uint32 \<Rightarrow> go_error option"

definition FILE_ATTRIBUTE_READONLY :: uint32 where "FILE_ATTRIBUTE_READONLY = 1"
definition FILE_ATTRIBUTE_SYSTEM :: uint32 where "FILE_ATTRIBUTE_SYSTEM = 4"

text \<open>
  The answer is the new file system and the outcome. The error of \<^verbatim>\<open>WriteString\<close> is dropped by the
  code, so a failed write leaves the file empty and goes on.
\<close>

definition createCygwinSocket ::
  "cygwin_os \<Rightarrow> (string \<rightharpoonup> string) \<Rightarrow> string \<Rightarrow> nat \<Rightarrow> (string \<rightharpoonup> string) \<times> bytes outcome" where
  "createCygwinSocket os fs filename port =
     (let fs0 = fs(filename := None) in
      case open_err os of
        Some e \<Rightarrow> (fs0, Fail e)
      | None \<Rightarrow>
          (let fs1 = fs0(filename \<mapsto> []) in
           case rand_err os of
             Some e \<Rightarrow> (fs1, Fail e)
           | None \<Rightarrow>
               (let uuid = rand_bytes os;
                    line = ''!<socket >'' @ dec port @ '' s '' @ UUIDToString uuid;
                    fs2 = (if write_fails os then fs1 else fs1(filename \<mapsto> line))
                in case SetFileAttributes (set_attr os) filename (FILE_ATTRIBUTE_SYSTEM OR FILE_ATTRIBUTE_READONLY) of
                     Some e \<Rightarrow> (fs2, Fail e)
                   | None \<Rightarrow> (fs2, Ret uuid))))"

text \<open>
  The first reply (\<^verbatim>\<open>conn.Write(uuid[:])\<close>) is sent without looking at its error, the second one is
  checked. \<open>pid\<close> is \<^verbatim>\<open>os.Getpid()\<close>.
\<close>

definition cygwinHandshake :: "nat \<Rightarrow> conn \<Rightarrow> bytes \<Rightarrow> conn \<times> unit outcome" where
  "cygwinHandshake pid c uuid =
     (case conn_ReadFull c 16 of
        (c1, cuuid, Some e) \<Rightarrow> (c1, Fail e)
      | (c1, cuuid, None) \<Rightarrow>
          if uuid \<noteq> cuuid then (c1, Fail (Errorf ''invalid uuid''))
          else case conn_Write c1 uuid of (c2, _) \<Rightarrow>
            (case conn_ReadFull c2 12 of
               (c3, pidsUids, Some e) \<Rightarrow> (c3, Fail e)
             | (c3, pidsUids, None) \<Rightarrow>
                 (let gid = pid;
                      p1 = put_at 0 (le_put_uint32 (word_of_nat pid)) pidsUids;
                      p2 = put_at 8 (le_put_uint32 (word_of_nat gid)) p1
                  in case conn_Write c3 p2 of
                       (c4, Some e) \<Rightarrow> (c4, Fail e)
                     | (c4, None) \<Rightarrow> (c4, Ret ()))))"

subsection \<open>Properties\<close>

lemma conn_Write_avail [simp]: "conn_avail (fst (conn_Write c p)) = conn_avail c"
  by (auto simp: conn_Write_def split: list.splits option.splits)

lemma conn_Write_sched: "wr_sched (fst (conn_Write c p)) = tl (wr_sched c)"
  by (auto simp: conn_Write_def split: list.splits option.splits)

definition second_write_ok :: "conn \<Rightarrow> bool" where
  "second_write_ok c \<longleftrightarrow> (\<forall>x e r. wr_sched c \<noteq> x # Some e # r)"

lemma second_write_ok_iff: "write_ok (fst (conn_Write c p)) = second_write_ok c"
  by (cases "wr_sched c") (auto simp: write_ok_def second_write_ok_def conn_Write_sched)

text \<open>
  Property C20. The handshake admits a client exactly when its first 16 bytes are the secret and
  12 more bytes follow (and the last reply can be sent): knowing the contents of the socket file
  is necessary and sufficient.
\<close>

theorem cygwinHandshake_accepts_iff:
  assumes "length uuid = 16"
  shows "snd (cygwinHandshake pid c uuid) = Ret () \<longleftrightarrow>
    take 16 (conn_avail c) = uuid \<and> 28 \<le> length (conn_avail c) \<and> second_write_ok c"
proof (cases "16 \<le> length (conn_avail c) \<and> take 16 (conn_avail c) = uuid")
  case False
  then show ?thesis
    by (cases "16 \<le> length (conn_avail c)") (auto simp: cygwinHandshake_def)
next
  case True
  let ?c1 = "c\<lparr>inp := drop_segs 16 (inp c)\<rparr>"
  let ?c2 = "fst (conn_Write ?c1 uuid)"
  obtain c2 e where w: "conn_Write ?c1 uuid = (c2, e)" by fastforce
  have av: "conn_avail c2 = drop 16 (conn_avail c)"
    using conn_Write_avail [of ?c1 uuid] by (simp add: w)
  have ok: "write_ok c2 \<longleftrightarrow> second_write_ok c"
    using second_write_ok_iff [of ?c1 uuid] by (simp add: w second_write_ok_def)
  show ?thesis
  proof (cases "12 \<le> length (conn_avail c2)")
    case False
    with True w av show ?thesis by (auto simp: cygwinHandshake_def)
  next
    case enough: True
    with True av have "28 \<le> length (conn_avail c)" by simp
    with True enough w ok show ?thesis
      by (auto simp: cygwinHandshake_def Let_def conn_Write_None_iff split: prod.splits option.splits
          dest: conn_Write_SomeD)
  qed
qed

lemma cygwinHandshake_secret: "cygwinHandshake pid c uuid = (c', Ret ()) \<Longrightarrow> take 16 (conn_avail c) = uuid"
  by (cases "16 \<le> length (conn_avail c)") (auto simp: cygwinHandshake_def split: if_splits)

text \<open>
  A client that does not send the secret gets no byte back: the agent writes nothing
  before it has compared all 16 bytes.
\<close>

theorem cygwinHandshake_silent:
  assumes "take 16 (conn_avail c) \<noteq> uuid"
  shows "outp (fst (cygwinHandshake pid c uuid)) = outp c \<and>
    snd (cygwinHandshake pid c uuid) \<noteq> Ret ()"
  using assms
  by (cases "16 \<le> length (conn_avail c)") (auto simp: cygwinHandshake_def)

text \<open>
  What an admitted client is sent: the secret, and its own 12 bytes of credentials
  with the process id put in the first and third field and the second field (the user id) left
  as it was. The stream is left right after the 28 bytes.
\<close>

theorem cygwinHandshake_reply:
  assumes "length uuid = 16" and "length creds = 12"
    and "conn_avail c = uuid @ creds @ rest" and "wr_sched c = []"
  shows "\<exists>c'. cygwinHandshake pid c uuid = (c', Ret ()) \<and> conn_avail c' = rest \<and>
    outp c' = outp c @ [uuid, le_put_uint32 (word_of_nat pid) @ take 4 (drop 4 creds) @
      le_put_uint32 (word_of_nat pid)]"
proof -
  have ok: "write_ok (c\<lparr>inp := i, outp := p, wr_sched := []\<rparr>)" for i p
    by (simp add: write_ok_def)
  have p: "put_at 8 b (put_at 0 a creds) = a @ take 4 (drop 4 creds) @ b"
    if "length a = 4" "length b = 4" for a b
    using that assms(2) by (simp add: put_at_def drop_take)
  show ?thesis
    using assms ok
    by (simp add: cygwinHandshake_def conn_Write_def Let_def p del: dec.simps)
qed

text \<open>
  Property C33. The socket file is the key: the secret \<open>createCygwinSocket\<close> returns is the one its
  file spells, so a client that decodes the file and sends the 16 bytes with its credentials is
  admitted.
\<close>

theorem cygwin_file_opens_door:
  assumes "createCygwinSocket os fs f port = (fs', Ret uuid)"
    and "\<not> write_fails os" and "length (rand_bytes os) = 16"
    and "fs' f = Some (''!<socket >'' @ dec port @ '' s '' @ UUIDToString u)" and "length u = 16"
    and "conn_avail c = u @ creds @ rest" and "length creds = 12" and "wr_sched c = []"
  shows "snd (cygwinHandshake pid c uuid) = Ret ()"
proof -
  have uuid: "uuid = rand_bytes os"
    and line: "fs' f = Some (''!<socket >'' @ dec port @ '' s '' @ UUIDToString uuid)"
    using assms(1,2) by (auto simp: createCygwinSocket_def Let_def split: option.splits)
  then have "u = uuid"
    using assms(3,4,5) by (auto intro: UUIDToString_eqD)
  then show ?thesis
    using assms(5-8)
    by (simp add: cygwinHandshake_def conn_Write_def Let_def)
qed

subsection \<open>Witnesses\<close>

definition test_uuid :: bytes where
  "test_uuid = [1, 2, 3, 4, 5, 6, 7, 8, 9, 10, 11, 12, 13, 14, 15, 16]"

definition cyg_client :: "bytes list \<Rightarrow> conn" where
  "cyg_client segs = \<lparr>inp = segs, rd_err = EOF, outp = [], wr_sched = [], closed = False\<rparr>"

definition test_os :: cygwin_os where
  "test_os = \<lparr>open_err = None, rand_bytes = test_uuid, rand_err = None, write_fails = False, set_attr = (\<lambda>path attr. None)\<rparr>"

lemma cyg_client_simps [simp]:
  "conn_avail (cyg_client segs) = concat segs" "outp (cyg_client segs) = []"
  "wr_sched (cyg_client segs) = []"
  by (simp_all add: cyg_client_def conn_avail_def del: concat_inp)

theorem cygwinHandshake_accepts_iff_witness:
  "snd (cygwinHandshake 7 (cyg_client [test_uuid, replicate 12 0]) test_uuid) = Ret ()"
  by (subst cygwinHandshake_accepts_iff) (simp_all add: test_uuid_def second_write_ok_def)

theorem cygwinHandshake_silent_witness:
  "outp (fst (cygwinHandshake 7 (cyg_client [rev test_uuid, replicate 12 0]) test_uuid)) = [] \<and>
   snd (cygwinHandshake 7 (cyg_client [rev test_uuid, replicate 12 0]) test_uuid) \<noteq> Ret ()"
  using cygwinHandshake_silent [of "cyg_client [rev test_uuid, replicate 12 0]" test_uuid 7]
  by (simp add: test_uuid_def)

theorem cygwinHandshake_reply_witness:
  "\<exists>c'. cygwinHandshake 7 (cyg_client [test_uuid @ [9, 9, 9, 9, 1, 2, 3, 4, 9, 9, 9, 9], [5]]) test_uuid =
     (c', Ret ()) \<and> conn_avail c' = [5] \<and>
     outp c' = [test_uuid, [7, 0, 0, 0, 1, 2, 3, 4, 7, 0, 0, 0]]"
  using cygwinHandshake_reply [of test_uuid "[9, 9, 9, 9, 1, 2, 3, 4, 9, 9, 9, 9]"
      "cyg_client [test_uuid @ [9, 9, 9, 9, 1, 2, 3, 4, 9, 9, 9, 9], [5]]" "[5]" 7]
  by (simp add: test_uuid_def le_put_uint32_def)

theorem cygwin_file_opens_door_witness:
  "snd (cygwinHandshake 7 (cyg_client [test_uuid, replicate 12 0]) test_uuid) = Ret ()"
  by (rule cygwin_file_opens_door [of test_os Map.empty "''sock''" 4711
        "[''sock'' \<mapsto> ''!<socket >'' @ dec 4711 @ '' s '' @ UUIDToString test_uuid]" test_uuid test_uuid
        _ "replicate 12 0" "[]"])
     (simp_all add: createCygwinSocket_def test_os_def test_uuid_def SetFileAttributes_def has_nul_def Let_def)

end
