(* ===== verification/Utils_Mmap.thy ===== *)
theory Utils_Mmap
  imports Go_IO
begin

section \<open>The Pageant connection (\<^verbatim>\<open>utils/mmap.go\<close>)\<close>

text \<open>
  \<^verbatim>\<open>memoryMapConn\<close> presents one Pageant request as a connection: the agent reads the request from
  it and writes its reply into it, and closing it sends the reply to the window procedure that
  waits on the request's channel (\<^verbatim>\<open>sent\<close> is what went down that channel). Every method holds the
  connection's mutex, so calls happen one after the other.
\<close>

record response =
  resp_data :: bytes
  resp_err :: "go_error option"

record memoryMapConn =
  req_data :: bytes
  offset :: nat
  wbuf :: bytes
  mclosed :: bool
  sent :: "response list"

text \<open>\<^verbatim>\<open>OpenFileMapping\<close>: a null pointer means that the call failed with the given error.\<close>

definition OpenFileMapping :: "nat \<times> go_error \<Rightarrow> nat outcome" where
  "OpenFileMapping call = (case call of (ptr, err) \<Rightarrow> if ptr = 0 then Fail err else Ret ptr)"

definition memoryMapConn_Read :: "memoryMapConn reader" where
  "memoryMapConn_Read m n =
     (if mclosed m then (m, [], Some ErrClosedPipe)
      else if length (req_data m) \<le> offset m then (m, [], Some EOF)
      else (let p = take n (drop (offset m) (req_data m)) in
            (m\<lparr>offset := offset m + length p\<rparr>, p, None)))"

definition memoryMapConn_Write :: "memoryMapConn \<Rightarrow> bytes \<Rightarrow> memoryMapConn \<times> nat \<times> go_error option" where
  "memoryMapConn_Write m p =
     (if mclosed m then (m, 0, Some ErrClosedPipe)
      else (m\<lparr>wbuf := wbuf m @ p\<rparr>, length p, None))"

definition memoryMapConn_Close :: "memoryMapConn \<Rightarrow> memoryMapConn \<times> go_error option" where
  "memoryMapConn_Close m =
     (if mclosed m then (m, Some ErrClosedPipe)
      else (let r = (if wbuf m \<noteq> [] then \<lparr>resp_data = wbuf m, resp_err = None\<rparr>
                     else \<lparr>resp_data = [], resp_err = Some ErrUnexpectedEOF\<rparr>)
            in (m\<lparr>mclosed := True, sent := sent m @ [r]\<rparr>, None)))"

text \<open>A fresh connection, as \<^verbatim>\<open>AcceptCtx\<close> makes it from a request.\<close>

definition new_conn :: "bytes \<Rightarrow> memoryMapConn" where
  "new_conn req = \<lparr>req_data = req, offset = 0, wbuf = [], mclosed = False, sent = []\<rparr>"

text \<open>Any client of the connection, as the sequence of calls it makes.\<close>

datatype mm_call = CallRead nat | CallWrite bytes | CallClose

fun mm_run :: "memoryMapConn \<Rightarrow> mm_call list \<Rightarrow> memoryMapConn" where
  "mm_run m [] = m"
| "mm_run m (CallRead n # cs) = mm_run (fst (memoryMapConn_Read m n)) cs"
| "mm_run m (CallWrite p # cs) = mm_run (fst (memoryMapConn_Write m p)) cs"
| "mm_run m (CallClose # cs) = mm_run (fst (memoryMapConn_Close m)) cs"

subsection \<open>Properties\<close>

definition mm_avail :: "memoryMapConn \<Rightarrow> bytes" where
  "mm_avail m = drop (offset m) (req_data m)"

definition mm_open :: "memoryMapConn \<Rightarrow> bool" where
  "mm_open m \<longleftrightarrow> \<not> mclosed m"

interpretation mmconn: byte_source memoryMapConn_Read mm_avail mm_open
proof
  fix m :: memoryMapConn and n :: nat
  assume m: "mm_open m" "0 < n" "mm_avail m \<noteq> []"
  let ?p = "take n (mm_avail m)"
  let ?m = "m\<lparr>offset := offset m + length ?p\<rparr>"
  have "mm_avail ?m = drop (length ?p) (mm_avail m)"
    by (simp add: mm_avail_def add.commute)
  then have "mm_avail m = ?p @ mm_avail ?m" by (simp only: take_drop_length)
  moreover have "memoryMapConn_Read m n = (?m, ?p, None)"
    using m by (simp add: memoryMapConn_Read_def mm_open_def mm_avail_def Let_def)
  ultimately show "\<exists>m' b. memoryMapConn_Read m n = (m', b, None) \<and> b \<noteq> [] \<and> length b \<le> n \<and>
      mm_avail m = b @ mm_avail m' \<and> mm_open m'"
    using m by (intro exI [of _ ?m] exI [of _ ?p]) (simp add: mm_open_def)
qed

text \<open>
  The agent side reads the request and nothing else: \<^verbatim>\<open>io.ReadFull\<close> on the connection
  returns the next bytes of the message that was in the shared memory.
\<close>

theorem memoryMapConn_ReadFull:
  assumes "\<not> mclosed m" and "n \<le> length (req_data m) - offset m"
  shows "\<exists>m'. ReadFull memoryMapConn_Read m n = Some (m', take n (drop (offset m) (req_data m)), None) \<and>
    mm_avail m' = drop (offset m + n) (req_data m)"
proof -
  have "mm_open m" "n \<le> length (mm_avail m)" using assms by (simp_all add: mm_open_def mm_avail_def)
  then obtain m' where "ReadFull memoryMapConn_Read m n = Some (m', take n (mm_avail m), None)"
    "mm_avail m' = drop n (mm_avail m)" by (rule mmconn.ReadFull_avail)
  then show ?thesis by (simp add: mm_avail_def add.commute)
qed

text \<open>What was written before the first close.\<close>

fun written :: "mm_call list \<Rightarrow> bytes" where
  "written [] = []"
| "written (CallRead n # cs) = written cs"
| "written (CallWrite p # cs) = p @ written cs"
| "written (CallClose # cs) = []"

definition reply_of :: "bytes \<Rightarrow> response" where
  "reply_of b = (if b \<noteq> [] then \<lparr>resp_data = b, resp_err = None\<rparr>
                 else \<lparr>resp_data = [], resp_err = Some ErrUnexpectedEOF\<rparr>)"

lemma mm_run_closed: "mclosed m \<Longrightarrow> mm_run m cs = m"
  by (induction m cs rule: mm_run.induct)
     (auto simp: memoryMapConn_Read_def memoryMapConn_Write_def memoryMapConn_Close_def)

lemma mm_run_sent:
  "\<not> mclosed m \<Longrightarrow> sent (mm_run m cs) =
     sent m @ (if CallClose \<in> set cs then [reply_of (wbuf m @ written cs)] else [])"
proof (induction m cs rule: mm_run.induct)
  case (4 m cs)
  then show ?case by (auto simp: memoryMapConn_Close_def mm_run_closed reply_of_def)
qed (auto simp: memoryMapConn_Read_def memoryMapConn_Write_def Let_def)

text \<open>
  Whatever sequence of reads, writes and closes the agent performs, the window
  procedure receives no response before the connection is closed and exactly one after, however
  often it is closed: all the bytes written before the first close, or \<^verbatim>\<open>ErrUnexpectedEOF\<close> if there
  were none.
\<close>

theorem memoryMapConn_one_response:
  "sent (mm_run (new_conn req) cs) =
     (if CallClose \<in> set cs then [reply_of (written cs)] else [])"
  using mm_run_sent [of "new_conn req" cs] by (simp add: new_conn_def)

theorem memoryMapConn_ReadFull_witness:
  "\<exists>m'. ReadFull memoryMapConn_Read (new_conn [0, 0, 0, 1, 11]) 4 = Some (m', [0, 0, 0, 1], None) \<and>
    mm_avail m' = [11]"
  using memoryMapConn_ReadFull [of "new_conn [0, 0, 0, 1, 11]" 4] by (simp add: new_conn_def)

end
