(* ===== verification/Utils_Pageant.thy ===== *)
theory Utils_Pageant
  imports Utils_Mmap Utils_Security Utils_Misc
begin

section \<open>The Pageant window (\<^verbatim>\<open>utils/pageant.go\<close>, \<^verbatim>\<open>utils/window.go\<close>)\<close>

text \<open>
  PuTTY clients find a hidden window of class \<^verbatim>\<open>Pageant\<close>, send it the name of a shared-memory file
  mapping in a \<^verbatim>\<open>WM_COPYDATA\<close> message and read the reply from the same memory. \<open>wndProc\<close> is the
  window procedure; the Win32 calls it makes are answered by an argument of type \<open>wnd_api\<close>, and
  the calls that acquire or release something, as well as the request handed to the agent, are
  recorded in order. Output to the debug console is left out.
\<close>

definition agentCopydataId :: uint64 where
  "agentCopydataId = 0x804e50ba"

definition agentMaxMsglen :: nat where
  "agentMaxMsglen = 8192"

definition WM_COPYDATA :: uint32 where
  "WM_COPYDATA = 0x4A"

record copyDataStruct =
  dwData :: uint64
  cbData :: uint32
  lpData :: uint64

text \<open>
  The system as one message sees it: the answer of \<^verbatim>\<open>DefWindowProc\<close>, of \<^verbatim>\<open>OpenFileMapping\<close>, the
  security queries, the memory behind a mapping, and the agent: \<open>serve\<close> is the response that comes
  back on the channel for a request sent to \<^verbatim>\<open>requestCh\<close>.
\<close>

record wnd_api =
  DefWindowProc :: nat
  OpenFileMappingA :: "nat \<times> go_error"
  sec :: sec_api
  MapViewOfFile :: "handle \<Rightarrow> bytes outcome"
  serve :: "bytes \<Rightarrow> response"

datatype wnd_event =
    CalledDefWindowProc
  | OpenedMapping handle
  | ClosedMapping handle
  | MappedView
  | UnmappedView
  | AskedAgent bytes
  | WroteMemory bytes

text \<open>
  The steps between opening the mapping and the answer, in the order of the code. \<open>mapped_view\<close>: the
  security check and the view. \<open>view_request\<close>: the message in the memory, unless its size is refused.
  \<open>view_reply\<close>: what a response leads to, the new contents of the memory. The code takes the view for an
  array of 8192 bytes whatever its size is, so both can touch memory beyond it: such an access is taken
  for a fault, which ends the process at once (the Go runtime throws, no deferred call is run).
\<close>

datatype 'a access = Refused | Fault | Granted 'a

definition mapped_view :: "wnd_api \<Rightarrow> handle \<Rightarrow> bytes option" where
  "mapped_view api fileMap =
     (case GetUserSID (sec api) of
        Ret ourself \<Rightarrow>
          (case GetDefaultSID (sec api) of
             Ret ourself2 \<Rightarrow>
               (case GetHandleSID (sec api) fileMap of
                  Ret mapOwner \<Rightarrow>
                    if mapOwner \<noteq> ourself \<and> mapOwner \<noteq> ourself2 then None
                    else (case MapViewOfFile api fileMap of Ret mem \<Rightarrow> Some mem | _ \<Rightarrow> None)
                | _ \<Rightarrow> None)
           | _ \<Rightarrow> None)
      | _ \<Rightarrow> None)"

definition view_request :: "bytes \<Rightarrow> bytes access" where
  "view_request mem =
     (if length mem < 4 then Fault
      else let sz = be_uint32 (take 4 mem) + 4 in
        if agentMaxMsglen < unat sz then Refused
        else if length mem < unat sz then Fault
        else Granted (take (unat sz) mem))"

definition view_reply :: "bytes \<Rightarrow> response \<Rightarrow> bytes access" where
  "view_reply mem resp =
     (if resp_err resp = None then
        (if agentMaxMsglen < length (resp_data resp) then Refused
         else if length mem < length (resp_data resp) then Fault
         else Granted (put_at 0 (resp_data resp) mem))
      else Refused)"

text \<open>The result of the window procedure; \<^const>\<open>None\<close> is the end of the process by a fault.\<close>

definition handle_view :: "wnd_api \<Rightarrow> bytes \<Rightarrow> wnd_event list \<times> nat option" where
  "handle_view api mem =
     (case view_request mem of
        Refused \<Rightarrow> ([MappedView, UnmappedView], Some 0)
      | Fault \<Rightarrow> ([MappedView], None)
      | Granted dat \<Rightarrow>
          (case view_reply mem (serve api dat) of
             Refused \<Rightarrow> ([MappedView, AskedAgent dat, UnmappedView], Some 0)
           | Fault \<Rightarrow> ([MappedView, AskedAgent dat], None)
           | Granted mem' \<Rightarrow> ([MappedView, AskedAgent dat, WroteMemory mem', UnmappedView], Some 1)))"

text \<open>Everything after the mapping was opened; its result is wrapped by the deferred \<^verbatim>\<open>CloseHandle\<close>.\<close>

definition handle_mapping :: "wnd_api \<Rightarrow> handle \<Rightarrow> wnd_event list \<times> nat option" where
  "handle_mapping api fileMap =
     (case mapped_view api fileMap of None \<Rightarrow> ([], Some 0) | Some mem \<Rightarrow> handle_view api mem)"

definition wndProc :: "wnd_api \<Rightarrow> uint32 \<Rightarrow> copyDataStruct \<Rightarrow> wnd_event list \<times> nat option" where
  "wndProc api message copyData =
     (if message \<noteq> WM_COPYDATA then ([CalledDefWindowProc], Some (DefWindowProc api))
      else if dwData copyData \<noteq> agentCopydataId then ([], Some 0)
      else case OpenFileMapping (OpenFileMappingA api) of
        Ret fileMap \<Rightarrow>
          (case handle_mapping api fileMap of
             (evs, None) \<Rightarrow> (OpenedMapping fileMap # evs, None)
           | (evs, Some r) \<Rightarrow> (OpenedMapping fileMap # evs @ [ClosedMapping fileMap], Some r))
      | _ \<Rightarrow> ([], Some 0))"

subsection \<open>Creating the window\<close>

text \<open>\<^verbatim>\<open>register\<close> and \<^verbatim>\<open>unregister\<close>: the Win32 call answers zero on failure.\<close>

definition wndClassEx_register :: "nat \<times> go_error \<Rightarrow> go_error option" where
  "wndClassEx_register call = (case call of (res, err) \<Rightarrow> if res = 0 then Some err else None)"

definition wndClassEx_unregister :: "nat \<times> go_error \<Rightarrow> go_error option" where
  "wndClassEx_unregister call = (case call of (res, err) \<Rightarrow> if res = 0 then Some err else None)"

record new_api =
  RegisterClassEx :: "nat \<times> go_error"
  CreateWindowEx :: "nat \<times> go_error"
  UnregisterClass :: "nat \<times> go_error"

datatype class_event = Registered | Unregister "go_error option" | StartedEventLoop handle | DestroyWindow handle

text \<open>
  \<^verbatim>\<open>NewPageant\<close> as Go returns it: a window or \<^verbatim>\<open>nil\<close>, and an error or \<^verbatim>\<open>nil\<close>. The error of
  \<^verbatim>\<open>CreateWindowEx\<close> travels in \<^verbatim>\<open>result.err\<close>; the function returns its own \<^verbatim>\<open>err\<close>, which is \<^verbatim>\<open>nil\<close> at
  that point. (\<^verbatim>\<open>UTF16PtrFromString\<close> of the constant class name cannot fail.)
\<close>

definition NewPageant :: "new_api \<Rightarrow> class_event list \<times> handle option \<times> go_error option" where
  "NewPageant api =
     (let err = wndClassEx_register (RegisterClassEx api) in
      if err \<noteq> None then ([], None, err)
      else case CreateWindowEx api of (windowHandle, _) \<Rightarrow>
        if windowHandle = 0
        then ([Registered, Unregister (wndClassEx_unregister (UnregisterClass api))], None, err)
        else ([Registered, StartedEventLoop windowHandle], Some windowHandle, None))"

text \<open>
  \<^verbatim>\<open>AcceptCtx\<close> waits for a request or for the end of the context; the select decides when both are
  ready, so the result is one of a set.
\<close>

definition AcceptCtx :: "bytes option \<Rightarrow> bool \<Rightarrow> (memoryMapConn outcome) set" where
  "AcceptCtx req ctxDone =
     (case req of Some d \<Rightarrow> {Ret (new_conn d)} | None \<Rightarrow> {}) \<union>
     (if ctxDone then {Fail ErrClosedPipe} else {})"

definition pageantWindow_Close :: "nat \<times> go_error \<Rightarrow> handle \<Rightarrow> class_event list" where
  "pageantWindow_Close unregisterClass window =
     [DestroyWindow window, Unregister (wndClassEx_unregister unregisterClass)]"

text \<open>
  \<^verbatim>\<open>eventLoop\<close> over the values \<^verbatim>\<open>GetMessage\<close> returns, which the code looks at as \<^verbatim>\<open>int32\<close>: it
  dispatches every message until the call answers 0 (\<^verbatim>\<open>WM_QUIT\<close>) or -1, and reports how many it
  dispatched and whether it has ended.
\<close>

fun eventLoop :: "uint64 list \<Rightarrow> nat \<times> bool" where
  "eventLoop [] = (0, False)"
| "eventLoop (ret # rets) =
     (let r = sint (ucast ret :: uint32) in
      if r = -1 then (0, True)
      else if r = 0 then (0, True)
      else case eventLoop rets of (n, ended) \<Rightarrow> (Suc n, ended))"

definition bracketed :: "wnd_event list \<Rightarrow> bool" where
  "bracketed evs \<longleftrightarrow>
     count_list evs MappedView = count_list evs UnmappedView \<and>
     (\<forall>h. count_list evs (OpenedMapping h) = count_list evs (ClosedMapping h)) \<and>
     (MappedView \<in> set evs \<longrightarrow> (\<exists>h. hd evs = OpenedMapping h \<and> last evs = ClosedMapping h))"

text \<open>A system for the examples: our own mapping of 8192 bytes, an agent that answers one byte.\<close>

definition wnd_demo :: "bytes \<Rightarrow> wnd_api" where
  "wnd_demo mem = \<lparr>DefWindowProc = 0, OpenFileMappingA = (7, EOF),
     sec = \<lparr>TokenUser = Ret [1], SecurityInfo = (\<lambda>h. Ret h), OwnerOf = (\<lambda>d. Ret [1]), CurrentProcess = 9\<rparr>,
     MapViewOfFile = (\<lambda>h. Ret mem), serve = (\<lambda>req. \<lparr>resp_data = [5], resp_err = None\<rparr>)\<rparr>"

definition cd_demo :: copyDataStruct where
  "cd_demo = \<lparr>dwData = agentCopydataId, cbData = 3, lpData = 4096\<rparr>"

subsection \<open>Properties\<close>

lemmas view_defs = handle_view_def view_request_def view_reply_def Let_def
lemmas wnd_defs = wndProc_def handle_mapping_def mapped_view_def view_defs OpenFileMapping_def

lemma wndProc_asked_owner:
  assumes "AskedAgent dat \<in> set (fst (wndProc api message cd))"
  shows "message = WM_COPYDATA \<and> dwData cd = agentCopydataId \<and>
    (\<exists>fileMap owner. OpenFileMapping (OpenFileMappingA api) = Ret fileMap \<and>
      GetHandleSID (sec api) fileMap = Ret owner \<and>
      (GetUserSID (sec api) = Ret owner \<or> GetDefaultSID (sec api) = Ret owner))"
  using assms
  by (auto simp: wnd_defs split: if_splits outcome.splits prod.splits option.splits access.splits)

text \<open>
  Property C5. Access control: a request reaches the agent only if the message carried Pageant's
  identifier and the owner of the mapping is the user of this process or the owner of the process
  object.
\<close>

theorem wndProc_owner_only:
  assumes "AskedAgent dat \<in> set (fst (wndProc api message cd))"
  shows "message = WM_COPYDATA \<and> dwData cd = agentCopydataId \<and>
    (\<exists>fileMap owner. OpenFileMapping (OpenFileMappingA api) = Ret fileMap \<and>
      GetHandleSID (sec api) fileMap = Ret owner \<and>
      (GetUserSID (sec api) = Ret owner \<or> GetDefaultSID (sec api) = Ret owner))"
  by (rule wndProc_asked_owner [OF assms])

theorem wndProc_owner_only_witness:
  "AskedAgent [0, 0, 0, 1, 11] \<in> set (fst (wndProc (wnd_demo [0, 0, 0, 1, 11, 0]) WM_COPYDATA cd_demo)) \<and>
   GetHandleSID (sec (wnd_demo [0, 0, 0, 1, 11, 0])) 7 = Ret [1]"
proof -
  have *: "AskedAgent [0, 0, 0, 1, 11] \<in> set (fst (wndProc (wnd_demo [0, 0, 0, 1, 11, 0]) WM_COPYDATA cd_demo))"
    by (simp add: wnd_defs wnd_demo_def cd_demo_def GetUserSID_def GetHandleSID_def GetDefaultSID_def
        agentMaxMsglen_def be_uint32_def)
  from wndProc_owner_only [OF this] * show ?thesis
    by (auto simp: wnd_demo_def OpenFileMapping_def GetHandleSID_def)
qed

text \<open>
  Property C28. The request is a prefix of the shared memory of at most 8192 bytes. The size check
  is done after a 32-bit addition that can wrap, so a length field of \<^verbatim>\<open>FF FF FF FC\<close> or more is not
  refused but shrinks the request to fewer than four bytes.
\<close>

theorem wndProc_request_bounds:
  assumes "handle_view api mem = (evs, r)" and "AskedAgent dat \<in> set evs"
  shows "dat = take (length dat) mem \<and> length dat \<le> agentMaxMsglen \<and>
    (length dat < 4 \<longleftrightarrow> 0xFFFFFFFC \<le> be_uint32 (take 4 mem))"
proof -
  let ?l = "be_uint32 (take 4 mem)"
  from assms have "dat = take (unat (?l + 4)) mem \<and> unat (?l + 4) \<le> agentMaxMsglen \<and> unat (?l + 4) \<le> length mem"
    by (auto simp: view_defs split: if_splits access.splits)
  then have d: "dat = take (unat (?l + 4)) mem" and sz: "unat (?l + 4) \<le> agentMaxMsglen" and len: "length dat = unat (?l + 4)"
    by simp_all
  have l: "unat ?l < 2 ^ 32" using unsigned_less [of ?l] by simp
  have "unat (?l + 4) = (unat ?l + 4) mod 2 ^ 32" by (simp add: unat_word_ariths)
  then have "unat (?l + 4) < 4 \<longleftrightarrow> 2 ^ 32 - 4 \<le> unat ?l"
    using l by (auto simp: mod_if)
  with len d sz show ?thesis by (simp add: word_le_nat_alt)
qed

theorem wndProc_request_bounds_witness:
  "length (take (Suc 4) (0 # 0 # 0 # 1 # replicate 8188 (11 :: byte))) \<le> agentMaxMsglen"
proof -
  let ?mem = "0 # 0 # 0 # 1 # replicate 8188 (11 :: byte)"
  have h: "handle_view (wnd_demo ?mem) ?mem =
      ([MappedView, AskedAgent (take (Suc 4) ?mem), WroteMemory (put_at 0 [5] ?mem), UnmappedView], Some 1)"
    by (simp add: view_defs wnd_demo_def agentMaxMsglen_def be_uint32_def)
  show ?thesis
    using wndProc_request_bounds [OF h, of "take (Suc 4) ?mem"] by (simp add: agentMaxMsglen_def)
qed

lemma handle_mapping_events:
  assumes "handle_mapping api fm = (evs, Some r)"
  shows "evs = [] \<or> (\<exists>es. evs = MappedView # es @ [UnmappedView] \<and> (\<forall>e \<in> set es. (\<exists>d. e = AskedAgent d) \<or> (\<exists>m. e = WroteMemory m)))"
  using assms by (auto simp: handle_mapping_def handle_view_def split: option.splits access.splits)

lemma served_counts:
  "\<forall>e \<in> set es. (\<exists>d. e = AskedAgent d) \<or> (\<exists>m. e = WroteMemory m) \<Longrightarrow>
    count_list es MappedView = 0 \<and> count_list es UnmappedView = 0 \<and> count_list es (OpenedMapping h) = 0 \<and> count_list es (ClosedMapping h) = 0"
  by (induction es) auto

text \<open>
  Property C26. No leak on any path: the file mapping and the view are released exactly as often
  as they were acquired, the view before the mapping, unless a fault has ended the process.
\<close>

theorem wndProc_releases: "bracketed (fst (wndProc api message cd)) \<or> snd (wndProc api message cd) = None"
proof (cases "message = WM_COPYDATA \<and> dwData cd = agentCopydataId")
  case True
  show ?thesis
  proof (cases "OpenFileMapping (OpenFileMappingA api)")
    case (Ret fm)
    obtain evs r where h: "handle_mapping api fm = (evs, r)" by (cases "handle_mapping api fm")
    show ?thesis
    proof (cases r)
      case (Some k)
      then have w: "wndProc api message cd = (OpenedMapping fm # evs @ [ClosedMapping fm], Some k)"
        using True Ret h by (simp add: wndProc_def)
      from handle_mapping_events [of api fm evs k] h Some show ?thesis
        unfolding w by (auto simp: bracketed_def served_counts)
    qed (use True Ret h in \<open>simp add: wndProc_def\<close>)
  qed (use True in \<open>simp_all add: wndProc_def bracketed_def\<close>)
qed (auto simp: wndProc_def bracketed_def)

text \<open>
  Property C25. A well-formed request of an authorised client: the agent is given exactly the
  framed message, and if it answers with at most 8192 bytes, and with no more than the client has
  mapped, the procedure returns 1 with the answer at the start of the shared memory and the rest of
  the memory as it was.
\<close>

theorem wndProc_serves:
  assumes "dwData cd = agentCopydataId"
    and "OpenFileMapping (OpenFileMappingA api) = Ret fm"
    and "GetUserSID (sec api) = Ret me" and "GetDefaultSID (sec api) = Ret me2"
    and "GetHandleSID (sec api) fm = Ret me"
    and "MapViewOfFile api fm = Ret (be_put_uint32 (word_of_nat (length m)) @ m @ rest)"
    and "length m + 4 \<le> agentMaxMsglen"
    and "serve api (be_put_uint32 (word_of_nat (length m)) @ m) = \<lparr>resp_data = ans, resp_err = None\<rparr>"
    and "length ans \<le> agentMaxMsglen" and "length ans \<le> length m + 4 + length rest"
  shows "wndProc api WM_COPYDATA cd =
    ([OpenedMapping fm, MappedView, AskedAgent (be_put_uint32 (word_of_nat (length m)) @ m),
      WroteMemory (ans @ drop (length ans) (be_put_uint32 (word_of_nat (length m)) @ m @ rest)),
      UnmappedView, ClosedMapping fm], Some 1)"
proof -
  have "length m + 4 < 2 ^ 32" using assms(7) by (simp add: agentMaxMsglen_def)
  then have "unat (word_of_nat (length m + 4) :: uint32) = length m + 4" by (simp only: unat_of_nat) simp
  then have "unat (word_of_nat (length m) + (4 :: uint32)) = length m + 4" by simp
  with assms show ?thesis
    by (simp add: wndProc_def handle_mapping_def mapped_view_def view_defs put_at_def)
qed

theorem wndProc_serves_witness:
  "snd (wndProc (wnd_demo [0, 0, 0, 1, 11, 0]) WM_COPYDATA cd_demo) = Some 1"
  using wndProc_serves [of cd_demo "wnd_demo [0, 0, 0, 1, 11, 0]" 7 "[1]" "[1]" "[11]" "[0]" "[5]"]
  by (simp add: wnd_demo_def cd_demo_def OpenFileMapping_def GetUserSID_def GetHandleSID_def
      GetDefaultSID_def agentMaxMsglen_def be_put_uint32_def)

text \<open>A view of 8192 bytes never faults; a smaller one does when its length field says one byte too much.\<close>

lemma view_no_fault: "agentMaxMsglen \<le> length mem \<Longrightarrow> view_request mem \<noteq> Fault \<and> view_reply mem r \<noteq> Fault"
  by (auto simp: view_request_def view_reply_def Let_def agentMaxMsglen_def)

lemma view_fault:
  assumes "4 \<le> n" "n < agentMaxMsglen"
  shows "view_request (be_put_uint32 (word_of_nat (n - 3)) @ replicate (n - 4) 0) = Fault"
proof -
  have "unat (word_of_nat (n - 3 + 4) :: uint32) = n - 3 + 4"
    using assms unfolding unat_of_nat by (simp add: agentMaxMsglen_def)
  then have "unat (word_of_nat (n - 3) + (4 :: uint32)) = n + 1" using assms by simp
  then show ?thesis using assms by (simp add: view_request_def Let_def)
qed

text \<open>
  Property C27. A small mapping crashes the agent: for a client that passes the owner check, a file
  mapping of which \<open>n\<close> bytes are mapped (whole pages) can have contents that make the window procedure
  touch memory outside the view, which ends the process unless something else is mapped there,
  exactly if \<open>n\<close> is less than the 8192 bytes that the code assumes.
\<close>

theorem wndProc_faults_iff:
  assumes "dwData cd = agentCopydataId" and "OpenFileMapping (OpenFileMappingA api) = Ret fm"
    and "GetUserSID (sec api) = Ret me" and "GetDefaultSID (sec api) = Ret me2" and "GetHandleSID (sec api) fm = Ret me"
  shows "(\<exists>mem. length mem = n \<and> snd (wndProc (api\<lparr>MapViewOfFile := \<lambda>h. Ret mem\<rparr>) WM_COPYDATA cd) = None) \<longleftrightarrow> n < agentMaxMsglen"
proof -
  have w: "snd (wndProc (api\<lparr>MapViewOfFile := \<lambda>h. Ret mem\<rparr>) WM_COPYDATA cd) = snd (handle_view (api\<lparr>MapViewOfFile := \<lambda>h. Ret mem\<rparr>) mem)" for mem
    using assms by (auto simp: wndProc_def handle_mapping_def mapped_view_def split: prod.split option.split)
  have f: "view_request mem = Fault \<Longrightarrow> snd (wndProc (api\<lparr>MapViewOfFile := \<lambda>h. Ret mem\<rparr>) WM_COPYDATA cd) = None" for mem
    unfolding w by (simp add: handle_view_def)
  have "snd (wndProc (api\<lparr>MapViewOfFile := \<lambda>h. Ret mem\<rparr>) WM_COPYDATA cd) \<noteq> None" if "agentMaxMsglen \<le> length mem" for mem
    unfolding w using view_no_fault [OF that] by (auto simp: handle_view_def split: access.split)
  moreover have "\<exists>mem. length mem = n \<and> snd (wndProc (api\<lparr>MapViewOfFile := \<lambda>h. Ret mem\<rparr>) WM_COPYDATA cd) = None" if n: "n < agentMaxMsglen"
  proof (cases "n < 4")
    case True
    then show ?thesis using f [of "replicate n 0"] by (intro exI [of _ "replicate n 0"]) (simp add: view_request_def)
  next
    case False
    let ?mem = "be_put_uint32 (word_of_nat (n - 3)) @ replicate (n - 4) 0"
    from False n have "view_request ?mem = Fault" by (intro view_fault) simp_all
    from f [OF this] False show ?thesis by (intro exI [of _ ?mem]) simp
  qed
  ultimately show ?thesis using not_less by blast
qed

theorem wndProc_faults_iff_witness:
  "\<exists>mem. length mem = 4096 \<and> snd (wndProc ((wnd_demo [])\<lparr>MapViewOfFile := \<lambda>h. Ret mem\<rparr>) WM_COPYDATA cd_demo) = None"
  using wndProc_faults_iff [of cd_demo "wnd_demo []" 7 "[1]" "[1]" 4096]
  by (simp add: wnd_demo_def cd_demo_def OpenFileMapping_def GetUserSID_def GetHandleSID_def GetDefaultSID_def agentMaxMsglen_def)

end
