(* ===== verification/Utils_Win.thy ===== *)
theory Utils_Win
  imports Utils_Pageant
begin

section \<open>Small Windows helpers (\<^verbatim>\<open>utils/clipboard.go\<close>, \<^verbatim>\<open>notification.go\<close>, \<^verbatim>\<open>dpi.go\<close>, \<^verbatim>\<open>xagent.go\<close>, \<^verbatim>\<open>processnotify.go\<close>, \<^verbatim>\<open>scardsvr.go\<close>)\<close>

text \<open>
  Functions that wrap a few system calls. A lazily bound procedure returns a result and an error
  value that is never nil in Go, possibly \<^verbatim>\<open>Errno(0)\<close>; both are arguments. Calls that take or give back
  something are recorded in order.
\<close>

subsection \<open>The clipboard\<close>

datatype clip_event =
    OpenedClipboard
  | EmptyClipboard
  | GlobalAlloc nat
  | GlobalLock nat
  | CopiedText string
  | GlobalUnlock nat
  | SetClipboardData nat
  | GlobalFree nat
  | CloseClipboard

text \<open>
  \<^verbatim>\<open>waitOpenClipboard\<close>: the answers of \<^verbatim>\<open>OpenClipboard\<close> in the attempts that start before the second is
  over. If there is none, the error variable still is nil.
\<close>

fun waitOpenClipboard :: "(nat \<times> go_error) list \<Rightarrow> go_error option \<Rightarrow> clip_event list \<times> go_error option" where
  "waitOpenClipboard [] err = ([], err)"
| "waitOpenClipboard ((r, e) # tries) err =
     (if r \<noteq> 0 then ([OpenedClipboard], None) else waitOpenClipboard tries (Some e))"

record clip_api =
  OpenTries :: "(nat \<times> go_error) list"
  c_empty :: "nat \<times> go_error"
  utf16_units :: "string \<Rightarrow> nat"
  c_alloc :: "nat \<Rightarrow> nat \<times> go_error"
  c_lock :: "nat \<times> go_error"
  c_strcpy :: "nat \<times> go_error"
  c_unlock :: "nat \<times> nat"
  c_set :: "nat \<times> go_error"

text \<open>
  The body after the memory \<open>h\<close> was allocated. The last component says whether the system has taken
  the memory over (\<^verbatim>\<open>h = 0\<close> in the code), in which case the deferred function does not free it.
\<close>

definition clip_fill :: "clip_api \<Rightarrow> string \<Rightarrow> nat \<Rightarrow> clip_event list \<times> go_error option \<times> bool" where
  "clip_fill api text h =
     (if fst (c_lock api) = 0 then ([], Some (snd (c_lock api)), False)
      else if fst (c_strcpy api) = 0 then ([GlobalLock h], Some (snd (c_strcpy api)), False)
      else if fst (c_unlock api) = 0 \<and> snd (c_unlock api) \<noteq> 0
      then ([GlobalLock h, CopiedText text, GlobalUnlock h], Some (Errno (snd (c_unlock api))), False)
      else if fst (c_set api) = 0
      then ([GlobalLock h, CopiedText text, GlobalUnlock h], Some (snd (c_set api)), False)
      else ([GlobalLock h, CopiedText text, GlobalUnlock h, SetClipboardData h], None, True))"

definition clip_body :: "clip_api \<Rightarrow> string \<Rightarrow> clip_event list \<times> go_error option" where
  "clip_body api text =
     (if fst (c_empty api) = 0 then ([], Some (snd (c_empty api)))
      else if has_nul text then ([EmptyClipboard], Some (EINVAL))
      else case c_alloc api (2 * (utf16_units api text + 1)) of (h, e) \<Rightarrow>
        if h = 0 then ([EmptyClipboard], Some e)
        else case clip_fill api text h of (evs, err, taken) \<Rightarrow>
          ([EmptyClipboard, GlobalAlloc h] @ evs @ (if taken then [] else [GlobalFree h]), err))"

definition SetClipBoard :: "clip_api \<Rightarrow> string \<Rightarrow> clip_event list \<times> go_error option" where
  "SetClipBoard api text =
     (case waitOpenClipboard (OpenTries api) None of
        (evs, Some e) \<Rightarrow> (evs, Some e)
      | (evs, None) \<Rightarrow> (case clip_body api text of (evs2, err) \<Rightarrow> (evs @ evs2 @ [CloseClipboard], err)))"

subsection \<open>Message boxes and notifications\<close>

text \<open>\<open>answer\<close> is the button the system reports; -1 without a box if a text cannot be passed.\<close>

definition MessageBoxW :: "(string \<Rightarrow> string \<Rightarrow> nat \<Rightarrow> int) \<Rightarrow> string \<Rightarrow> string \<Rightarrow> nat \<Rightarrow> (string \<times> string \<times> nat) list \<times> int" where
  "MessageBoxW answer title text style =
     (if has_nul text then ([], -1)
      else if has_nul title then ([], -1)
      else ([(title, text, style)], answer title text style))"

text \<open>The package variable \<^verbatim>\<open>notifier\<close> is the first argument of \<open>Notify_call\<close>, set by \<open>RegisterNotifier\<close>.\<close>

definition RegisterNotifier :: "'n \<Rightarrow> 'n option \<Rightarrow> 'n option" where
  "RegisterNotifier n old = Some n"

definition Notify_call :: "'n option \<Rightarrow> string \<Rightarrow> string \<Rightarrow> ('n \<times> string \<times> string \<times> string) list" where
  "Notify_call notifier title message =
     (case notifier of None \<Rightarrow> [] | Some n \<Rightarrow> [(n, ''info'', title, message)])"

subsection \<open>DPI awareness\<close>

text \<open>A procedure that may be missing (\<^const>\<open>None\<close>), or its result and error value.\<close>

definition SetProcessSystemDpiAware ::
  "(nat \<times> go_error) option \<Rightarrow> (nat \<times> go_error) option \<Rightarrow> (nat \<times> go_error) option \<Rightarrow> go_error option" where
  "SetProcessSystemDpiAware perMonitor shcore user =
     (if \<exists>e. perMonitor = Some (1, e) then None
      else case shcore of
        Some (r0, err) \<Rightarrow> if r0 = 1 then None else Some err
      | None \<Rightarrow>
          (case user of
             Some (r0, err) \<Rightarrow> if r0 = 1 then None else Some err
           | None \<Rightarrow> None))"

subsection \<open>The smart-card service\<close>

definition CheckSCardSvrStatus_of :: "go_error + string list \<Rightarrow> bool \<times> go_error option" where
  "CheckSCardSvrStatus_of query =
     (case query of
        Inl e \<Rightarrow> (False, Some e)
      | Inr states \<Rightarrow> (states \<noteq> [] \<and> hd states = ''Running'', None))"

text \<open>The elevated commands: the verb, the program, its arguments and the way its window is shown.\<close>

record shell_call =
  verb :: string
  program :: string
  arguments :: string
  show_cmd :: nat

definition StartSCardSvr_call :: shell_call where
  "StartSCardSvr_call = \<lparr>verb = ''runas'', program = ''net'', arguments = ''start scardsvr'', show_cmd = 0\<rparr>"

subsection \<open>Elevation\<close>

text \<open>\<open>IsAdmin\<close> from the answers of building the administrators' SID and of the membership query.\<close>

definition IsAdmin :: "go_error option \<Rightarrow> go_error + bool \<Rightarrow> bool" where
  "IsAdmin alloc member =
     (case alloc of Some e \<Rightarrow> False | None \<Rightarrow> (case member of Inl e \<Rightarrow> False | Inr b \<Rightarrow> b))"

text \<open>\<^verbatim>\<open>strings.Join(args, " ")\<close>.\<close>

fun join_spaces :: "string list \<Rightarrow> string" where
  "join_spaces [] = []"
| "join_spaces [a] = a"
| "join_spaces (a # b # rest) = a @ '' '' @ join_spaces (b # rest)"

definition RunMeElevated_call :: "string \<Rightarrow> string list \<Rightarrow> shell_call" where
  "RunMeElevated_call exe args = \<lparr>verb = ''runas'', program = exe, arguments = join_spaces (drop 1 args), show_cmd = 1\<rparr>"

definition RunMeElevatedWithArgs_call :: "string \<Rightarrow> string \<Rightarrow> shell_call" where
  "RunMeElevatedWithArgs_call exe args = \<lparr>verb = ''runas'', program = exe, arguments = args, show_cmd = 1\<rparr>"

subsection \<open>Listener deadlines\<close>

datatype listener_kind = TCPListener | UnixListener | OtherListener

text \<open>Whether the deadline is set, and the error; other listeners are left alone.\<close>

definition SetListenerDeadline :: "listener_kind \<Rightarrow> go_error option \<Rightarrow> bool \<times> go_error option" where
  "SetListenerDeadline l setErr =
     (case l of TCPListener \<Rightarrow> (True, setErr) | UnixListener \<Rightarrow> (True, setErr) | OtherListener \<Rightarrow> (False, None))"

subsection \<open>The XAgent windows\<close>

text \<open>
  What happens to the listener, to window classes and to windows. The class of a window is
  registered before the window is made and unregistered when it could not be made or is closed.
\<close>

datatype xa_event =
    Listening nat
  | ListenerClosed nat
  | RegisteredClass string
  | UnregisteredClass string
  | MadeWindow nat
  | DestroyedWindow nat
  | SetLong nat uint64 nat

record window =
  win_class :: string
  win_handle :: nat

definition createDefaultWindow :: "new_api \<Rightarrow> string \<Rightarrow> string \<Rightarrow> xa_event list \<times> window outcome" where
  "createDefaultWindow api cls name =
     (if has_nul cls then ([], Fail (EINVAL))
      else if has_nul name then ([], Fail (EINVAL))
      else case wndClassEx_register (RegisterClassEx api) of
        Some e \<Rightarrow> ([], Fail e)
      | None \<Rightarrow>
          (case CreateWindowEx api of (h, err) \<Rightarrow>
            if h = 0 then ([RegisteredClass cls, UnregisteredClass cls], Fail err)
            else ([RegisteredClass cls, MadeWindow h], Ret \<lparr>win_class = cls, win_handle = h\<rparr>)))"

definition window_Close :: "window \<Rightarrow> xa_event list" where
  "window_Close s = [DestroyedWindow (win_handle s), UnregisteredClass (win_class s)]"

definition xAgentClassName :: string where "xAgentClassName = ''NSSSH:AGENTWND''"
definition xAgentSingleClassName :: string where "xAgentSingleClassName = ''STATIC''"
definition xAgentSingleWindowName :: string where "xAgentSingleWindowName = ''_SINGLE_INSTANCE::XAGENT''"

record XAgent =
  socket :: nat
  cookieWin :: window
  singleInstanceWin :: window

text \<open>\<^verbatim>\<open>SetWindowLong\<close> is one call; its result is not looked at. The index is \<^verbatim>\<open>GWL_USERDATA\<close>, minus 21.\<close>

definition SetWindowLong :: "nat \<Rightarrow> uint64 \<Rightarrow> nat \<Rightarrow> xa_event list" where
  "SetWindowLong hWnd index val = [SetLong hWnd index val]"

definition NewXAgent :: "go_error + nat \<Rightarrow> new_api \<Rightarrow> new_api \<Rightarrow> string \<Rightarrow> xa_event list \<times> XAgent outcome" where
  "NewXAgent listen api1 api2 cookie =
     (case listen of
        Inl e \<Rightarrow> ([], Fail e)
      | Inr port \<Rightarrow>
          (case createDefaultWindow api1 xAgentClassName cookie of
             (ev1, Fail e) \<Rightarrow> (Listening port # ev1, Fail e)
           | (ev1, Panic m) \<Rightarrow> (Listening port # ev1, Panic m)
           | (ev1, Ret w1) \<Rightarrow>
               (case createDefaultWindow api2 xAgentSingleClassName xAgentSingleWindowName of
                  (ev2, Fail e) \<Rightarrow> (Listening port # ev1 @ ev2, Fail e)
                | (ev2, Panic m) \<Rightarrow> (Listening port # ev1 @ ev2, Panic m)
                | (ev2, Ret w2) \<Rightarrow>
                    (Listening port # ev1 @ ev2 @ SetWindowLong (win_handle w1) 0xFFFFFFEB port,
                     Ret \<lparr>socket = port, cookieWin = w1, singleInstanceWin = w2\<rparr>))))"

definition XAgent_Listener :: "XAgent \<Rightarrow> nat" where
  "XAgent_Listener s = socket s"

definition XAgent_Close :: "XAgent \<Rightarrow> xa_event list" where
  "XAgent_Close s = window_Close (cookieWin s) @ window_Close (singleInstanceWin s)"

subsection \<open>Process events\<close>

datatype process_type = PROCESS_CREATE | PROCESS_DELETE | PROCESS_MODIFY | PROCESS_ERROR

record ProcessEvent =
  pe_Type :: process_type
  pe_Error :: "go_error option"
  pe_TimeStamp :: uint64
  pe_ProcessId :: uint32
  pe_Name :: string
  pe_CommandLine :: string

record wmiProcessEvent =
  TimeStamp :: uint64
  Class :: string
  ProcessId :: uint32
  Name :: string
  CommandLine :: string

datatype wmi_input = Event wmiProcessEvent | Done "go_error option"

definition to_event :: "wmiProcessEvent \<Rightarrow> ProcessEvent" where
  "to_event ev = \<lparr>
     pe_Type = (if Class ev = ''__InstanceCreationEvent'' then PROCESS_CREATE
                else if Class ev = ''__InstanceDeletionEvent'' then PROCESS_DELETE
                else PROCESS_MODIFY),
     pe_Error = None, pe_TimeStamp = TimeStamp ev, pe_ProcessId = ProcessId ev,
     pe_Name = Name ev, pe_CommandLine = CommandLine ev\<rparr>"

text \<open>\<^verbatim>\<open>dispatch\<close> over what its two channels deliver; the flag says whether it has returned.\<close>

fun dispatch :: "wmi_input list \<Rightarrow> ProcessEvent list \<times> bool" where
  "dispatch [] = ([], False)"
| "dispatch (Event ev # ins) = (case dispatch ins of (es, fin) \<Rightarrow> (to_event ev # es, fin))"
| "dispatch (Done err # ins) =
     ([\<lparr>pe_Type = PROCESS_ERROR, pe_Error = err, pe_TimeStamp = 0, pe_ProcessId = 0, pe_Name = [], pe_CommandLine = []\<rparr>], True)"

subsection \<open>Properties\<close>

definition clip_balanced :: "clip_event list \<Rightarrow> bool" where
  "clip_balanced evs \<longleftrightarrow>
     (\<forall>h. count_list evs (GlobalAlloc h) = count_list evs (SetClipboardData h) + count_list evs (GlobalFree h)) \<and>
     (OpenedClipboard \<in> set evs \<longrightarrow> last evs = CloseClipboard)"

lemma clip_fill_events:
  "clip_fill api text h = (evs, err, taken) \<Longrightarrow>
    set evs \<subseteq> {GlobalLock h, CopiedText text, GlobalUnlock h, SetClipboardData h} \<and>
    count_list evs (SetClipboardData h) = (if taken then 1 else 0) \<and>
    (taken \<longleftrightarrow> err = None) \<and> (taken \<longrightarrow> CopiedText text \<in> set evs)"
  by (auto simp: clip_fill_def split: if_splits)

lemma clip_fill_counts:
  assumes "clip_fill api text h = (evs, err, taken)"
  shows "count_list evs (GlobalAlloc k) = 0" "count_list evs (GlobalFree k) = 0"
    "count_list evs (SetClipboardData k) = (if taken \<and> k = h then 1 else 0)" "OpenedClipboard \<notin> set evs"
  using assms by (auto simp: clip_fill_def split: if_splits)

lemma waitOpenClipboard_events: "waitOpenClipboard tries err = (evs, r) \<Longrightarrow> evs = [] \<or> evs = [OpenedClipboard] \<and> r = None"
  by (induction tries err rule: waitOpenClipboard.induct) (auto split: if_splits)

lemma clip_body_counts:
  assumes "clip_body api text = (evs, err)"
  shows "count_list evs (GlobalAlloc h) = count_list evs (SetClipboardData h) + count_list evs (GlobalFree h) \<and>
    (err = None \<longrightarrow> CopiedText text \<in> set evs \<and> (\<exists>k. SetClipboardData k \<in> set evs \<and> GlobalFree k \<notin> set evs))"
proof -
  obtain k e where k: "c_alloc api (2 * (utf16_units api text + 1)) = (k, e)" by fastforce
  obtain evs1 err1 tk where f: "clip_fill api text k = (evs1, err1, tk)" by (cases "clip_fill api text k") auto
  have z: "x \<notin> set evs1" if "count_list evs1 x = 0" for x using that by (simp add: count_list_0_iff)
  have one: "tk \<Longrightarrow> SetClipboardData k \<in> set evs1"
    using clip_fill_counts(3) [OF f, of k] by (metis count_notin zero_neq_one)
  show ?thesis
    using assms k f clip_fill_counts(1,2,3) [OF f, of h] clip_fill_events [OF f] z [OF clip_fill_counts(2) [OF f]] one
    by (auto simp: clip_body_def split: if_splits)
qed

text \<open>
  Copying to the clipboard gives back what it takes on every path: the clipboard is
  closed after it was opened, and the allocated memory is either handed to the clipboard or freed,
  never both; on success the clipboard owns memory with exactly this text.
\<close>

theorem SetClipBoard_balanced:
  assumes "SetClipBoard api text = (evs, err)"
  shows "clip_balanced evs \<and>
    (err = None \<longrightarrow> CopiedText text \<in> set evs \<and> (\<exists>h. SetClipboardData h \<in> set evs \<and> GlobalFree h \<notin> set evs))"
proof -
  obtain ev1 r1 where 1: "waitOpenClipboard (OpenTries api) None = (ev1, r1)" by fastforce
  obtain ev2 r2 where 2: "clip_body api text = (ev2, r2)" by fastforce
  show ?thesis
  proof (cases r1)
    case None
    then have "evs = ev1 @ ev2 @ [CloseClipboard]" "err = r2" using assms 1 2 by (auto simp: SetClipBoard_def)
    then show ?thesis
      using waitOpenClipboard_events [OF 1] clip_body_counts [OF 2] by (auto simp: clip_balanced_def)
  next
    case (Some e)
    then have "evs = []" "err = Some e"
      using assms 1 waitOpenClipboard_events [OF 1] by (auto simp: SetClipBoard_def)
    then show ?thesis by (simp add: clip_balanced_def)
  qed
qed

theorem SetClipBoard_balanced_witness:
  "\<exists>evs. SetClipBoard \<lparr>OpenTries = [(0, Errno 5), (1, Errno 0)], c_empty = (1, Errno 0), utf16_units = length,
       c_alloc = (\<lambda>n. (64, Errno 0)), c_lock = (128, Errno 0), c_strcpy = (128, Errno 0), c_unlock = (0, 0),
       c_set = (64, Errno 0)\<rparr> ''hi'' = (evs, None) \<and> clip_balanced evs"
  (is "\<exists>evs. SetClipBoard ?api _ = _ \<and> _")
proof -
  have "\<exists>evs. SetClipBoard ?api ''hi'' = (evs, None)"
    by (simp add: SetClipBoard_def clip_body_def clip_fill_def has_nul_def)
  with SetClipBoard_balanced show ?thesis by blast
qed

text \<open>
  If no attempt to open the clipboard is made in time, \<^verbatim>\<open>SetClipBoard\<close> goes on as if it had been opened.
\<close>

lemma SetClipBoard_unopened:
  assumes "OpenTries api = []"
  shows "OpenedClipboard \<notin> set (fst (SetClipBoard api text)) \<and> CloseClipboard \<in> set (fst (SetClipBoard api text))"
proof -
  obtain k e where k: "c_alloc api (2 * (utf16_units api text + 1)) = (k, e)" by fastforce
  obtain evs1 err1 tk where f: "clip_fill api text k = (evs1, err1, tk)" by (cases "clip_fill api text k") auto
  with k assms clip_fill_counts(4) [OF f] show ?thesis
    by (auto simp: SetClipBoard_def clip_body_def split: if_splits prod.splits)
qed

text \<open>
  Closing the agent undoes everything that creating it did, except that the listener stays open;
  so does a failure half-way, which also leaves the first window behind.
\<close>

lemma NewXAgent_Close_balance:
  assumes "NewXAgent (Inr port) api1 api2 cookie = (evs, Ret ag)"
  shows "count_list (evs @ XAgent_Close ag) (RegisteredClass c) = count_list (evs @ XAgent_Close ag) (UnregisteredClass c) \<and>
    count_list (evs @ XAgent_Close ag) (MadeWindow h) = count_list (evs @ XAgent_Close ag) (DestroyedWindow h) \<and>
    ListenerClosed (XAgent_Listener ag) \<notin> set (evs @ XAgent_Close ag)"
  using assms
  by (auto simp: NewXAgent_def createDefaultWindow_def SetWindowLong_def XAgent_Close_def window_Close_def
      split: outcome.splits option.splits prod.splits if_splits)


lemma NewXAgent_leaks:
  assumes "NewXAgent (Inr port) api1 api2 cookie = (evs, Fail e)"
  shows "Listening port \<in> set evs \<and> ListenerClosed port \<notin> set evs"
  using assms by (auto simp: NewXAgent_def createDefaultWindow_def SetWindowLong_def split: outcome.splits option.splits prod.splits if_splits)

end
