(* ===== verification/App_Transports.thy ===== *)
theory App_Transports
  imports App_XShell App_Cygwin Utils_Win
begin

section \<open>The accept loops (\<^verbatim>\<open>Run\<close> of \<^verbatim>\<open>app/pipe.go\<close>, \<^verbatim>\<open>wsl.go\<close>, \<^verbatim>\<open>cygwin.go\<close>, \<^verbatim>\<open>pageant.go\<close>, \<^verbatim>\<open>xshell.go\<close>, \<^verbatim>\<open>vsock.go\<close>)\<close>

text \<open>
  Every transport has the same shape: open a listener, accept connections, let some of them through
  a check, start a handler goroutine for each and count it in a wait group. What differs is the
  check, whether the loop looks at the context between two calls of \<^verbatim>\<open>Accept\<close>, and what an error of
  \<^verbatim>\<open>Accept\<close> leads to. A \<open>transport\<close> holds these three; \<open>run_step\<close> is one step of \<^verbatim>\<open>Run\<close> or of its
  environment, in any interleaving: the context is cancelled, \<^verbatim>\<open>Accept\<close> returns, a handler ends.
\<close>

text \<open>Where the goroutine of \<^verbatim>\<open>Run\<close> stands: at the \<^verbatim>\<open>select\<close>, in \<^verbatim>\<open>Accept\<close>, in \<^verbatim>\<open>wg.Wait\<close>, or returned.\<close>

datatype pc = AtSelect | InAccept | Waiting "go_error option" | Returned "go_error option" | Crashed string

datatype 'c verdict = Serve 'c | Drop 'c | Crash string

record 'c transport =
  polls :: bool
  guard :: "'c \<Rightarrow> 'c verdict"
  on_error :: "go_error \<Rightarrow> pc"

record 'c run_state =
  at :: pc
  cancelled :: bool
  serving :: "'c list"
  given :: "'c list"
  dropped :: "'c list"

definition loop_top :: "'c transport \<Rightarrow> pc" where
  "loop_top t = (if polls t then AtSelect else InAccept)"

definition run_start :: "'c transport \<Rightarrow> 'c run_state" where
  "run_start t = \<lparr>at = loop_top t, cancelled = False, serving = [], given = [], dropped = []\<rparr>"

text \<open>
  \<open>given\<close> lists the connections handed to the handler, \<open>serving\<close> those of them whose handler has not
  ended (the wait group's counter is its length), \<open>dropped\<close> those closed without being served.
\<close>

inductive run_step :: "'c transport \<Rightarrow> 'c run_state \<Rightarrow> 'c run_state \<Rightarrow> bool" for t where
  cancel: "run_step t s (s\<lparr>cancelled := True\<rparr>)"
| select_done: "at s = AtSelect \<Longrightarrow> cancelled s \<Longrightarrow> run_step t s (s\<lparr>at := Waiting None\<rparr>)"
| select_default: "at s = AtSelect \<Longrightarrow> \<not> cancelled s \<Longrightarrow> run_step t s (s\<lparr>at := InAccept\<rparr>)"
| accept_timeout: "at s = InAccept \<Longrightarrow> polls t \<Longrightarrow> run_step t s (s\<lparr>at := AtSelect\<rparr>)"
| accept_error: "at s = InAccept \<Longrightarrow> run_step t s (s\<lparr>at := on_error t e\<rparr>)"
| accept_serve: "at s = InAccept \<Longrightarrow> guard t c = Serve c' \<Longrightarrow>
    run_step t s (s\<lparr>at := loop_top t, serving := c' # serving s, given := c' # given s\<rparr>)"
| accept_drop: "at s = InAccept \<Longrightarrow> guard t c = Drop c' \<Longrightarrow>
    run_step t s (s\<lparr>at := loop_top t, dropped := c' # dropped s\<rparr>)"
| accept_crash: "at s = InAccept \<Longrightarrow> guard t c = Crash m \<Longrightarrow> run_step t s (s\<lparr>at := Crashed m\<rparr>)"
| handler_done: "c \<in> set (serving s) \<Longrightarrow> run_step t s (s\<lparr>serving := remove1 c (serving s)\<rparr>)"
| wait_done: "at s = Waiting r \<Longrightarrow> serving s = [] \<Longrightarrow> run_step t s (s\<lparr>at := Returned r\<rparr>)"

inductive_cases run_stepE: "run_step t s s'"

abbreviation reachable :: "'c transport \<Rightarrow> 'c run_state \<Rightarrow> bool" where
  "reachable t \<equiv> (run_step t)\<^sup>*\<^sup>* (run_start t)"

subsection \<open>The transports\<close>

text \<open>The named pipe: closing the listener on cancellation makes \<^verbatim>\<open>Accept\<close> fail with its own error.\<close>

definition NamedPipe_loop :: "'c transport" where
  "NamedPipe_loop = \<lparr>polls = False, guard = Serve,
     on_error = (\<lambda>e. Waiting (if e \<noteq> ErrPipeListenerClosed then Some e else None))\<rparr>"

definition Pageant_loop :: "memoryMapConn transport" where
  "Pageant_loop = \<lparr>polls = False, guard = Serve,
     on_error = (\<lambda>e. Waiting (if e \<noteq> ErrClosedPipe then Some e else None))\<rparr>"

text \<open>
  WSL: a Unix socket, or TCP where the peer's user is looked up (\<open>peer\<close> is what that asks of the
  system). A connection is dropped only when the check says that the user is another one.
\<close>

definition WSL_guard :: "('c \<Rightarrow> owner_api) \<Rightarrow> bool \<Rightarrow> 'c \<Rightarrow> 'c verdict" where
  "WSL_guard peer fallback c =
     (if fallback then
        (case snd (SameUserTCPConn (peer c)) of
           Ret same \<Rightarrow> if \<not> same then Drop c else Serve c
         | Fail e \<Rightarrow> Serve c
         | Panic m \<Rightarrow> Crash m)
      else Serve c)"

definition WSL_loop :: "('c \<Rightarrow> owner_api) \<Rightarrow> bool \<Rightarrow> 'c transport" where
  "WSL_loop peer fallback = \<lparr>polls = True, guard = WSL_guard peer fallback, on_error = (\<lambda>e. Returned (Some e))\<rparr>"

definition Cygwin_guard :: "nat \<Rightarrow> bytes \<Rightarrow> conn \<Rightarrow> conn verdict" where
  "Cygwin_guard pid uuid c =
     (case cygwinHandshake pid c uuid of
        (c', Ret u) \<Rightarrow> Serve c'
      | (c', Fail e) \<Rightarrow> Drop (conn_Close c')
      | (c', Panic m) \<Rightarrow> Crash m)"

definition Cygwin_loop :: "nat \<Rightarrow> bytes \<Rightarrow> conn transport" where
  "Cygwin_loop pid uuid = \<lparr>polls = True, guard = Cygwin_guard pid uuid, on_error = (\<lambda>e. Returned (Some e))\<rparr>"

text \<open>The handler gets the connection inside an \<^verbatim>\<open>xshellProxy\<close>, which is told apart from it by its buffers only.\<close>

definition XShell_guard ::
  "(bytes \<Rightarrow> go_error + initAgentMsg) \<Rightarrow> (uint32 \<Rightarrow> bytes) \<Rightarrow> bytes \<Rightarrow> conn \<Rightarrow> conn verdict" where
  "XShell_guard um ma cookie c =
     (case xshellHandshake um ma c cookie of
        (c', Ret u) \<Rightarrow> Serve c'
      | (c', Fail e) \<Rightarrow> Drop (conn_Close c')
      | (c', Panic m) \<Rightarrow> Crash m)"

definition XShell_loop :: "(bytes \<Rightarrow> go_error + initAgentMsg) \<Rightarrow> (uint32 \<Rightarrow> bytes) \<Rightarrow> bytes \<Rightarrow> conn transport" where
  "XShell_loop um ma cookie = \<lparr>polls = False, guard = XShell_guard um ma cookie,
     on_error = (\<lambda>e. Waiting (if e \<noteq> ErrClosedPipe then Some e else None))\<rparr>"

definition VSock_loop :: "'c transport" where
  "VSock_loop = \<lparr>polls = False, guard = Serve, on_error = (\<lambda>e. Returned None)\<rparr>"

text \<open>The accept loop of a worker for one virtual machine (\<^verbatim>\<open>vSockWorker.Run\<close>); it counts no handlers.\<close>

definition vSockWorker_loop :: "'c transport" where
  "vSockWorker_loop = \<lparr>polls = False, guard = Serve, on_error = (\<lambda>e. Returned None)\<rparr>"

subsection \<open>Opening the listeners\<close>

text \<open>What \<^verbatim>\<open>Run\<close> gets from the system before its loop.\<close>

record listen_os =
  UserCacheDir :: "go_error + string"
  MkdirAll :: "string \<Rightarrow> go_error option"
  Join :: "string \<Rightarrow> string \<Rightarrow> string"
  ListenUnix :: "string \<Rightarrow> go_error option"
  ListenTCP :: "go_error + nat"
  VolumeName :: "string \<Rightarrow> string"
  Sprintf0 :: "string \<Rightarrow> string"

definition dataDir :: "listen_os \<Rightarrow> go_error + string" where
  "dataDir os =
     (case UserCacheDir os of
        Inl e \<Rightarrow> Inl e
      | Inr cacheDir \<Rightarrow>
          (let dir = Join os cacheDir ''KeyBridge'' in
           case MkdirAll os dir of Some e \<Rightarrow> Inl e | None \<Rightarrow> Inr dir))"

definition WSL_SOCK :: string where "WSL_SOCK = ''keybridge-wsl.sock''"
definition CYGWIN_SOCK :: string where "CYGWIN_SOCK = ''keybridge-cygwin.sock''"

definition listenUnixSock :: "listen_os \<Rightarrow> string \<Rightarrow> string \<times> go_error option" where
  "listenUnixSock os filename =
     (case dataDir os of
        Inl e \<Rightarrow> ([], Some e)
      | Inr dir \<Rightarrow> (let path = Join os dir filename in (path, ListenUnix os path)))"

definition to_slash :: "char \<Rightarrow> char" where
  "to_slash c = (if c = CHR 0x5C then CHR ''/'' else c)"

definition ToSlash :: "string \<Rightarrow> string" where
  "ToSlash s = map to_slash s"

text \<open>\<^verbatim>\<open>strings.ToLower\<close> of a one-letter string; a drive letter is ASCII.\<close>

definition ToLower :: "char \<Rightarrow> char" where
  "ToLower c = (if (65 :: nat) \<le> of_char c \<and> of_char c \<le> (90 :: nat) then char_of (of_char c + 32 :: nat) else c)"

definition winPath2Unix :: "(string \<Rightarrow> string) \<Rightarrow> string \<Rightarrow> string" where
  "winPath2Unix volumeName_of path =
     (let volumeName = volumeName_of path;
          vnl = length volumeName;
          fileName = drop vnl path
      in if vnl = 2 then ''/mnt/'' @ [ToLower (volumeName ! 0)] @ ToSlash fileName else ToSlash path)"

text \<open>\<^verbatim>\<open>WSL.Run\<close> up to its loop: whether it fell back to TCP, and the help text it will show.\<close>

definition WSL_open :: "listen_os \<Rightarrow> go_error + (bool \<times> string)" where
  "WSL_open os =
     (case listenUnixSock os WSL_SOCK of
        (path, None) \<Rightarrow> Inr (False, Sprintf0 os (''export SSH_AUTH_SOCK='' @ winPath2Unix (VolumeName os) path))
      | (path, Some _) \<Rightarrow>
          (case ListenTCP os of
             Inl e \<Rightarrow> Inl e
           | Inr port \<Rightarrow> Inr (True,
               ''socat UNIX-LISTEN:/tmp/ssh-capi-agent.sock,reuseaddr,fork TCP:localhost:'' @ dec port @ '' &'' @ [CHR 0x0A] @
               ''export SSH_AUTH_SOCK=/tmp/ssh-capi-agent.sock'')))"

definition WSL_Run :: "listen_os \<Rightarrow> ('c \<Rightarrow> owner_api) \<Rightarrow> go_error + ('c transport \<times> string)" where
  "WSL_Run os peer =
     (case WSL_open os of Inl e \<Rightarrow> Inl e | Inr (fallback, help) \<Rightarrow> Inr (WSL_loop peer fallback, help))"

text \<open>
  \<^verbatim>\<open>Cygwin.Run\<close> up to its loop: the socket file is made after the listener, for its port; on every
  return the deferred function removes the file and closes the listener.
\<close>

definition Cygwin_Run ::
  "listen_os \<Rightarrow> cygwin_os \<Rightarrow> (string \<rightharpoonup> string) \<Rightarrow> nat \<Rightarrow> (string \<rightharpoonup> string) \<times> (go_error + (conn transport \<times> string))" where
  "Cygwin_Run os cos fs pid =
     (case dataDir os of
        Inl e \<Rightarrow> (fs, Inl e)
      | Inr dir \<Rightarrow>
          (let sockfile = Join os dir CYGWIN_SOCK in
           case ListenTCP os of
             Inl e \<Rightarrow> (fs, Inl e)
           | Inr port \<Rightarrow>
               (case createCygwinSocket cos fs sockfile port of
                  (fs', Ret uuid) \<Rightarrow> (fs', Inr (Cygwin_loop pid uuid, sockfile))
                | (fs', Fail e) \<Rightarrow> (fs'(sockfile := None), Inl e)
                | (fs', Panic m) \<Rightarrow> (fs'(sockfile := None), Inl (Errorf m)))))"

text \<open>\<^verbatim>\<open>NamedPipe.Run\<close> up to its loop.\<close>

definition NamedPipe_Run :: "go_error option \<Rightarrow> 'c transport outcome" where
  "NamedPipe_Run listen = (case listen of Some e \<Rightarrow> Fail e | None \<Rightarrow> Ret NamedPipe_loop)"

text \<open>
  \<^verbatim>\<open>Pageant.Run\<close> up to its loop: a nil window is only noticed when \<^verbatim>\<open>AcceptCtx\<close> reads a field of it.
\<close>

definition Pageant_Run :: "new_api \<Rightarrow> memoryMapConn transport outcome" where
  "Pageant_Run api =
     (case NewPageant api of
        (evs, win, Some e) \<Rightarrow> Fail e
      | (evs, Some h, None) \<Rightarrow> Ret Pageant_loop
      | (evs, None, None) \<Rightarrow> Panic ''invalid memory address or nil pointer dereference'')"

text \<open>\<^verbatim>\<open>XShell.Run\<close> up to its loop; the cookie is the random string that also names the window.\<close>

definition XShell_Run ::
  "(bytes \<Rightarrow> go_error + initAgentMsg) \<Rightarrow> (uint32 \<Rightarrow> bytes) \<Rightarrow> go_error + nat \<Rightarrow> new_api \<Rightarrow> new_api \<Rightarrow> string \<Rightarrow> conn transport outcome" where
  "XShell_Run um ma listen api1 api2 cookie =
     (case NewXAgent listen api1 api2 cookie of
        (evs, Fail e) \<Rightarrow> Fail e
      | (evs, Panic m) \<Rightarrow> Panic m
      | (evs, Ret win) \<Rightarrow> Ret (XShell_loop um ma (map of_char cookie)))"

subsection \<open>What every loop guarantees\<close>

text \<open>
  Connections only reach the handler through the transport's check: \<open>served\<close> holds of what the check
  lets through, \<open>rejected\<close> of what it drops.
\<close>

locale checked_transport =
  fixes t :: "'c transport" and served rejected :: "'c \<Rightarrow> bool"
  assumes serve: "guard t c = Serve c' \<Longrightarrow> served c'"
    and reject: "guard t c = Drop c' \<Longrightarrow> rejected c'"
begin

lemma checked:
  assumes "reachable t s"
  shows "(\<forall>c \<in> set (given s). served c) \<and> (\<forall>c \<in> set (dropped s). rejected c)"
  using assms
proof (induction rule: rtranclp_induct)
  case (step s s')
  from step(2) show ?case by (cases rule: run_step.cases) (use step(3) serve reject in auto)
qed (simp add: run_start_def)

end

text \<open>A transport whose \<^verbatim>\<open>Run\<close> reports success only after \<^verbatim>\<open>wg.Wait\<close>.\<close>

locale waiting_transport =
  fixes t :: "'c transport"
  assumes waits: "on_error t e \<noteq> Returned None"
begin

lemma drained:
  assumes "reachable t s" "at s = Returned None"
  shows "serving s = []"
proof -
  have "at s = Returned None \<longrightarrow> serving s = []"
    using assms(1)
  proof (induction rule: rtranclp_induct)
    case (step s s')
    from step(2) show ?case by (cases rule: run_step.cases) (use step(3) waits in \<open>auto simp: loop_top_def\<close>)
  qed (simp add: run_start_def loop_top_def)
  with assms(2) show ?thesis by simp
qed

end

interpretation pipe: waiting_transport NamedPipe_loop
  by unfold_locales (simp add: NamedPipe_loop_def)

interpretation pageant: waiting_transport Pageant_loop
  by unfold_locales (simp add: Pageant_loop_def)

interpretation wsl: waiting_transport "WSL_loop peer fallback"
  by unfold_locales (simp add: WSL_loop_def)

interpretation cygwin: waiting_transport "Cygwin_loop pid uuid"
  by unfold_locales (simp add: Cygwin_loop_def)

interpretation xshell: waiting_transport "XShell_loop um ma cookie"
  by unfold_locales (simp add: XShell_loop_def)

text \<open>Who gets through, and what happens to the others.\<close>

interpretation cygwin_check: checked_transport "Cygwin_loop pid uuid"
  "\<lambda>c'. \<exists>c. cygwinHandshake pid c uuid = (c', Ret ())" "\<lambda>c'. closed c'"
  by unfold_locales (auto simp: Cygwin_loop_def Cygwin_guard_def conn_Close_def split: prod.splits outcome.splits)

interpretation xshell_check: checked_transport "XShell_loop um ma cookie"
  "\<lambda>c'. \<exists>c. xshellHandshake um ma c cookie = (c', Ret ())" "\<lambda>c'. closed c'"
  by unfold_locales (auto simp: XShell_loop_def XShell_guard_def conn_Close_def split: prod.splits outcome.splits)

interpretation wsl_check: checked_transport "WSL_loop peer fallback"
  "\<lambda>c. fallback \<longrightarrow> snd (SameUserTCPConn (peer c)) \<noteq> Ret False"
  "\<lambda>c. fallback \<and> snd (SameUserTCPConn (peer c)) = Ret False"
  by unfold_locales (auto simp: WSL_loop_def WSL_guard_def split: if_splits outcome.splits)

text \<open>After the cancellation: how many more connections a polling loop can still take.\<close>

definition accepted :: "'c run_state \<Rightarrow> nat" where
  "accepted s = length (given s) + length (dropped s)"

definition may_accept :: "'c run_state \<Rightarrow> nat" where
  "may_accept s = (if at s = InAccept then 1 else 0)"

lemma cancelled_step:
  assumes "run_step t s s'" "polls t" "cancelled s" "\<forall>e. on_error t e \<noteq> InAccept"
  shows "cancelled s' \<and> accepted s' + may_accept s' \<le> accepted s + may_accept s"
  using assms by (elim run_stepE) (auto simp: accepted_def may_accept_def loop_top_def)

lemma cancelled_steps:
  assumes "(run_step t)\<^sup>*\<^sup>* s s'" "polls t" "cancelled s" "\<forall>e. on_error t e \<noteq> InAccept"
  shows "cancelled s' \<and> accepted s' + may_accept s' \<le> accepted s + may_accept s"
  using assms(1)
proof (induction rule: rtranclp_induct)
  case (step s1 s2)
  with cancelled_step [OF step(2) assms(2) _ assms(4)] show ?case by simp
qed (use assms(3) in simp)

subsection \<open>Properties\<close>

text \<open>
  Authentication end to end: every connection that the Cygwin transport hands to the
  agent started with the secret of the socket file, every connection of the XShell transport with
  the cookie; all others are closed without being served.
\<close>

theorem transports_authenticate:
  assumes "reachable (Cygwin_loop pid uuid) s" and "reachable (XShell_loop um ma cookie) s2" and "unmarshals_init um"
  shows "(\<forall>c' \<in> set (given s). \<exists>c. take 16 (conn_avail c) = uuid \<and> cygwinHandshake pid c uuid = (c', Ret ())) \<and>
    (\<forall>c' \<in> set (given s2). \<exists>c k flag rest. conn_avail c = hello k flag cookie @ rest \<and>
       xshellHandshake um ma c cookie = (c', Ret ())) \<and>
    list_all closed (dropped s) \<and> list_all closed (dropped s2)"
proof (intro conjI ballI)
  fix c' assume "c' \<in> set (given s)"
  then show "\<exists>c. take 16 (conn_avail c) = uuid \<and> cygwinHandshake pid c uuid = (c', Ret ())"
    using cygwin_check.checked [OF assms(1)] cygwinHandshake_secret by blast
next
  fix c' assume "c' \<in> set (given s2)"
  then obtain c where "xshellHandshake um ma c cookie = (c', Ret ())"
    using xshell_check.checked [OF assms(2)] by blast
  then show "\<exists>c k flag rest. conn_avail c = hello k flag cookie @ rest \<and> xshellHandshake um ma c cookie = (c', Ret ())"
    using xshellHandshake_authentic [OF assms(3), of ma c cookie] by auto
qed (use cygwin_check.checked [OF assms(1)] xshell_check.checked [OF assms(2)] in \<open>auto simp: list_all_iff\<close>)

text \<open>
  Graceful shutdown: when the \<^verbatim>\<open>Run\<close> of the pipe, Pageant, WSL, Cygwin or XShell
  transport returns without an error, no handler of it is still running.
\<close>

theorem transports_drain:
  "(\<forall>s. reachable (NamedPipe_loop :: 'c transport) s \<longrightarrow> at s = Returned None \<longrightarrow> serving s = []) \<and>
   (\<forall>s. reachable Pageant_loop s \<longrightarrow> at s = Returned None \<longrightarrow> serving s = []) \<and>
   (\<forall>s. reachable (WSL_loop peer fallback) s \<longrightarrow> at s = Returned None \<longrightarrow> serving s = []) \<and>
   (\<forall>s. reachable (Cygwin_loop pid uuid) s \<longrightarrow> at s = Returned None \<longrightarrow> serving s = []) \<and>
   (\<forall>s. reachable (XShell_loop um ma cookie) s \<longrightarrow> at s = Returned None \<longrightarrow> serving s = [])"
  by (blast dest: pipe.drained pageant.drained wsl.drained cygwin.drained xshell.drained)

text \<open>
  After the context is cancelled, the WSL and Cygwin loops accept at most one more
  connection.
\<close>

theorem polling_stops:
  assumes "cancelled s" and "(run_step (WSL_loop peer fallback))\<^sup>*\<^sup>* s s'"
    and "cancelled u" and "(run_step (Cygwin_loop pid uuid))\<^sup>*\<^sup>* u u'"
  shows "accepted s' \<le> accepted s + 1 \<and> accepted u' \<le> accepted u + 1"
  using cancelled_steps [OF assms(2) _ assms(1)] cancelled_steps [OF assms(4) _ assms(3)]
  by (auto simp: WSL_loop_def Cygwin_loop_def may_accept_def split: if_splits)

text \<open>
  Property C24. Over the TCP fallback, a WSL connection is turned away only when the process at its
  other end was found and runs as a different user; a connection that was not turned away is
  either from this user or one whose owner could not be determined.
\<close>

theorem wsl_refuses_other_users:
  assumes "reachable (WSL_loop peer True) s"
  shows "(\<forall>c \<in> set (dropped s). \<exists>port pid proc token user ours.
      remote_port (peer c) = Some port \<and> tcpConnOwnerPID (tcp_table (peer c)) (word_of_nat port) = Ret pid \<and>
      OpenProcess (peer c) pid = Ret proc \<and> OpenProcessToken (peer c) proc = Ret token \<and>
      GetTokenUser (peer c) token = Ret user \<and> GetUserSID (security (peer c)) = Ret ours \<and> user \<noteq> ours) \<and>
    (\<forall>c \<in> set (given s). \<forall>same. snd (SameUserTCPConn (peer c)) = Ret same \<longrightarrow> same)"
proof -
  have "snd (SameUserTCPConn api) = Ret False \<Longrightarrow> \<exists>port pid proc token user ours.
      remote_port api = Some port \<and> tcpConnOwnerPID (tcp_table api) (word_of_nat port) = Ret pid \<and>
      OpenProcess api pid = Ret proc \<and> OpenProcessToken api proc = Ret token \<and>
      GetTokenUser api token = Ret user \<and> GetUserSID (security api) = Ret ours \<and> user \<noteq> ours" for api
    by (auto simp: SameUserTCPConn_def split: option.splits outcome.splits)
  with wsl_check.checked [OF assms] show ?thesis by auto
qed

text \<open>
  Property C39. A failing \<^verbatim>\<open>CreateWindowEx\<close> crashes the program: the error is lost on the way out of
  \<^verbatim>\<open>NewPageant\<close> and the transport goes on with a nil window.
\<close>

theorem Pageant_Run_panics:
  assumes "RegisterClassEx api = (atom, e1)" and "atom \<noteq> 0" and "CreateWindowEx api = (0, e2)"
  shows "\<exists>m. Pageant_Run api = Panic m"
  using assms by (simp add: Pageant_Run_def NewPageant_def wndClassEx_register_def)

theorem Pageant_Run_panics_witness:
  "\<exists>m. Pageant_Run \<lparr>RegisterClassEx = (1, EOF), CreateWindowEx = (0, Errno 8), UnregisterClass = (1, EOF)\<rparr> = Panic m"
  by (rule Pageant_Run_panics [where atom = 1]) simp_all

subsection \<open>Witnesses\<close>

text \<open>The Cygwin loop takes one client; the WSL loop refuses one.\<close>

definition good_client :: conn where
  "good_client = cyg_client [test_uuid, replicate 12 0]"

lemma good_client_served: "\<exists>c'. cygwinHandshake 7 good_client test_uuid = (c', Ret ())"
proof -
  have "snd (cygwinHandshake 7 good_client test_uuid) = Ret ()"
    by (simp add: cygwinHandshake_def good_client_def test_uuid_def conn_Write_def Let_def split: prod.split)
  then show ?thesis by (cases "cygwinHandshake 7 good_client test_uuid") auto
qed

lemma accept_two_steps:
  assumes "polls t" "guard t c = Serve c'"
  shows "\<exists>s. reachable t s \<and> given s = [c']"
proof -
  let ?s1 = "(run_start t)\<lparr>at := InAccept\<rparr>"
  have "run_step t (run_start t) ?s1"
    using assms(1) by (intro run_step.select_default) (simp_all add: run_start_def loop_top_def)
  moreover have "run_step t ?s1 (?s1\<lparr>at := loop_top t, serving := c' # serving ?s1, given := c' # given ?s1\<rparr>)"
    using assms(2) by (intro run_step.accept_serve) simp_all
  ultimately show ?thesis
    by (intro exI [of _ "?s1\<lparr>at := loop_top t, serving := c' # serving ?s1, given := c' # given ?s1\<rparr>"])
       (auto simp: run_start_def intro: rtranclp.rtrancl_into_rtrancl)
qed

theorem transports_authenticate_witness:
  "\<exists>s. reachable (Cygwin_loop 7 test_uuid) s \<and> length (given s) = 1 \<and>
     (\<forall>c' \<in> set (given s). \<exists>c. take 16 (conn_avail c) = test_uuid \<and> cygwinHandshake 7 c test_uuid = (c', Ret ()))"
proof -
  obtain c' where "cygwinHandshake 7 good_client test_uuid = (c', Ret ())" using good_client_served by blast
  then have "guard (Cygwin_loop 7 test_uuid) good_client = Serve c'" by (simp add: Cygwin_loop_def Cygwin_guard_def)
  from accept_two_steps [OF _ this] obtain s where s: "reachable (Cygwin_loop 7 test_uuid) s" "given s = [c']"
    by (auto simp: Cygwin_loop_def)
  from transports_authenticate [OF s(1) rtranclp.rtrancl_refl unmarshals_wire, of wire_marshal_rep test_cookie] s
  show ?thesis by (intro exI [of _ s]) simp
qed

theorem transports_drain_witness:
  "reachable (NamedPipe_loop :: nat transport) ((run_start NamedPipe_loop)\<lparr>at := Returned None\<rparr>) \<and>
   serving ((run_start (NamedPipe_loop :: nat transport))\<lparr>at := Returned None\<rparr>) = []"
proof -
  let ?t = "NamedPipe_loop :: nat transport" and ?s = "run_start (NamedPipe_loop :: nat transport)"
  have "run_step ?t ?s (?s\<lparr>at := on_error ?t ErrPipeListenerClosed\<rparr>)"
    by (intro run_step.accept_error) (simp add: run_start_def loop_top_def NamedPipe_loop_def)
  then have 1: "run_step ?t ?s (?s\<lparr>at := Waiting None\<rparr>)" by (simp add: NamedPipe_loop_def)
  have "run_step ?t (?s\<lparr>at := Waiting None\<rparr>) ((?s\<lparr>at := Waiting None\<rparr>)\<lparr>at := Returned None\<rparr>)"
    by (intro run_step.wait_done) (simp_all add: run_start_def)
  with 1 have r: "reachable ?t (?s\<lparr>at := Returned None\<rparr>)"
    by (auto intro: rtranclp.rtrancl_into_rtrancl)
  moreover have "at (?s\<lparr>at := Returned None\<rparr>) = Returned None" by simp
  ultimately show ?thesis using transports_drain [where 'c = nat] by blast
qed

theorem polling_stops_witness:
  "accepted ((run_start (WSL_loop (\<lambda>c :: nat. test_owner) True))\<lparr>cancelled := True, at := Waiting None\<rparr>) \<le> 1"
proof -
  let ?t = "WSL_loop (\<lambda>c :: nat. test_owner) True"
  let ?s = "(run_start ?t)\<lparr>cancelled := True\<rparr>" and ?u = "(run_start (Cygwin_loop 7 test_uuid))\<lparr>cancelled := True\<rparr>"
  have "run_step ?t ?s (?s\<lparr>at := Waiting None\<rparr>)"
    by (intro run_step.select_done) (simp_all add: run_start_def loop_top_def WSL_loop_def)
  from polling_stops [OF _ r_into_rtranclp [of "run_step ?t", OF this] _ rtranclp.rtrancl_refl, of ?u]
  show ?thesis by (simp add: accepted_def run_start_def)
qed

theorem wsl_refuses_other_users_witness:
  "\<exists>s. reachable (WSL_loop (\<lambda>c :: nat. test_owner\<lparr>remote_port := None\<rparr>) True) s \<and> given s = [5] \<and> dropped s = []"
proof -
  let ?t = "WSL_loop (\<lambda>c :: nat. test_owner\<lparr>remote_port := None\<rparr>) True"
  have "guard ?t 5 = Serve 5" by (simp add: WSL_loop_def WSL_guard_def SameUserTCPConn_def)
  from accept_two_steps [OF _ this] obtain s where s: "reachable ?t s" "given s = [5]"
    by (auto simp: WSL_loop_def)
  moreover have "dropped s = []"
    using wsl_refuses_other_users [OF s(1)] by (cases "dropped s") auto
  ultimately show ?thesis by blast
qed

end
