(* ===== verification/App_VSock.thy ===== *)
theory App_VSock
  imports App_Transports
begin

section \<open>Hyper-V sockets (\<^verbatim>\<open>app/vsock.go\<close>, \<^verbatim>\<open>utils/wsl2.go\<close>)\<close>

text \<open>
  A watcher follows the running WSL2 virtual machines and keeps a listener (a worker) for each. The
  machines' identifiers are taken from the command lines of the \<^verbatim>\<open>wslhost.exe\<close> processes, which a WMI
  query reports. Answers of WMI, the registry and the socket layer are arguments.
\<close>

subsection \<open>The identifiers of the machines\<close>

text \<open>\<^verbatim>\<open>strings.Split(s, " ")\<close>.\<close>

fun split_spaces :: "string \<Rightarrow> string list" where
  "split_spaces [] = [[]]"
| "split_spaces (c # cs) =
     (if c = CHR '' '' then [] # split_spaces cs
      else case split_spaces cs of [] \<Rightarrow> [[c]] | x # xs \<Rightarrow> (c # x) # xs)"

text \<open>The inner loop: the last argument that contains a brace.\<close>

definition brace_arg :: "string list \<Rightarrow> string option" where
  "brace_arg args = find (\<lambda>a. CHR 0x7B \<in> set a) (rev args)"

text \<open>\<^verbatim>\<open>k[1:len(k)-1]\<close>, which panics for a string of one character.\<close>

definition strip_ends :: "string \<Rightarrow> string outcome" where
  "strip_ends k =
     (if length k < 2 then Panic ''slice bounds out of range'' else Ret (take (length k - 2) (drop 1 k)))"

fun strip_all :: "string list \<Rightarrow> string list outcome" where
  "strip_all [] = Ret []"
| "strip_all (k # ks) =
     (case strip_ends k of
        Ret v \<Rightarrow> (case strip_all ks of Ret vs \<Rightarrow> Ret (v # vs) | Fail e \<Rightarrow> Fail e | Panic m \<Rightarrow> Panic m)
      | Fail e \<Rightarrow> Fail e
      | Panic m \<Rightarrow> Panic m)"

text \<open>
  The map \<^verbatim>\<open>guids\<close> as the list of its keys; Go visits them in an arbitrary order, which \<open>order\<close> picks.
  A failed query yields \<^verbatim>\<open>nil\<close>, an empty list.
\<close>

definition GetVMIDs :: "(string list \<Rightarrow> string list) \<Rightarrow> go_error + string list \<Rightarrow> string list outcome" where
  "GetVMIDs order query =
     (case query of
        Inl e \<Rightarrow> Ret []
      | Inr cmdlines \<Rightarrow>
          strip_all (order (remdups (List.map_filter (\<lambda>l. brace_arg (split_spaces l)) cmdlines))))"

subsection \<open>Differences\<close>

definition id_map :: "string list \<Rightarrow> (string \<rightharpoonup> nat)" where
  "id_map xs = fold (\<lambda>v m. m(v \<mapsto> 0)) xs Map.empty"

definition vmidDiff :: "string list \<Rightarrow> string list \<Rightarrow> string list \<times> string list" where
  "vmidDiff old new =
     (let oldIDS = id_map old; newIDS = id_map new in
      (filter (\<lambda>v. oldIDS v = None) new, filter (\<lambda>v. newIDS v = None) old))"

subsection \<open>The watcher\<close>

text \<open>
  \<open>live\<close> lists the machines with an open listener, one entry per listener: opening one adds an entry,
  closing a worker removes one. The map of workers is what the code itself knows of them.
\<close>

record watcher =
  lastVMIDs :: "string list"
  workers :: "string \<rightharpoonup> nat"
  live :: "string list"

text \<open>
  \<open>newVSockWorker\<close>: parsing the identifier and opening the listener, each of which can fail; a worker
  is represented by the listener.
\<close>

record vsock_os =
  GUIDFromString :: "string \<Rightarrow> go_error option"
  ListenHvsock :: "string \<Rightarrow> go_error + nat"

definition newVSockWorker :: "vsock_os \<Rightarrow> string \<Rightarrow> go_error + nat" where
  "newVSockWorker os vmid =
     (case GUIDFromString os vmid of
        Some e \<Rightarrow> Inl e
      | None \<Rightarrow> (case ListenHvsock os vmid of Inl e \<Rightarrow> Inl e | Inr l \<Rightarrow> Inr l))"

definition add_worker :: "vsock_os \<Rightarrow> string \<Rightarrow> watcher \<Rightarrow> watcher" where
  "add_worker os v s =
     (case newVSockWorker os v of
        Inl e \<Rightarrow> s
      | Inr wk \<Rightarrow> s\<lparr>workers := (workers s)(v \<mapsto> wk), live := v # live s\<rparr>)"

definition del_worker :: "string \<Rightarrow> watcher \<Rightarrow> watcher" where
  "del_worker v s =
     (case workers s v of
        None \<Rightarrow> s
      | Some wk \<Rightarrow> s\<lparr>workers := (workers s)(v := None), live := remove1 v (live s)\<rparr>)"

text \<open>One round of the loop, up to the \<^verbatim>\<open>select\<close>.\<close>

definition watch_round :: "vsock_os \<Rightarrow> string list \<Rightarrow> watcher \<Rightarrow> watcher" where
  "watch_round os vmids s =
     (case vmidDiff (lastVMIDs s) vmids of (add, del) \<Rightarrow>
       (fold del_worker del (fold (add_worker os) add s))\<lparr>lastVMIDs := vmids\<rparr>)"

definition watcher_start :: watcher where
  "watcher_start = \<lparr>lastVMIDs = [], workers = Map.empty, live = []\<rparr>"

text \<open>
  The whole loop: the system of each round and the machines it reports. The loop ends when the
  context is done, with the workers as they are.
\<close>

fun wsl2Watcher :: "(vsock_os \<times> string list) list \<Rightarrow> watcher \<Rightarrow> watcher" where
  "wsl2Watcher [] s = s"
| "wsl2Watcher ((os, vmids) # rounds) s = wsl2Watcher rounds (watch_round os vmids s)"

subsection \<open>Run\<close>

text \<open>\<^verbatim>\<open>CheckHVService\<close>: both registry keys can be opened.\<close>

definition CheckHVService :: "go_error option \<Rightarrow> go_error option \<Rightarrow> bool" where
  "CheckHVService openServices openAgent = (openServices = None \<and> openAgent = None)"

definition CheckHvSocket :: "go_error + nat \<Rightarrow> bool" where
  "CheckHvSocket sock = (case sock of Inl e \<Rightarrow> False | Inr fd \<Rightarrow> True)"

text \<open>\<^verbatim>\<open>VSock.Run\<close> up to its loop: nothing to do, an error, or the loop with \<^verbatim>\<open>running\<close> set.\<close>

definition VSock_Run :: "bool \<Rightarrow> bool \<Rightarrow> bool \<Rightarrow> go_error option \<Rightarrow> go_error option + 'c transport" where
  "VSock_Run isHV hvSocket hvService listen =
     (if isHV then Inl None
      else if \<not> hvSocket then Inl None
      else if \<not> hvService then Inl None
      else case listen of Some e \<Rightarrow> Inl (Some e) | None \<Rightarrow> Inr VSock_loop)"

subsection \<open>Lemmas\<close>

lemma id_map_None [simp]: "id_map xs v = None \<longleftrightarrow> v \<notin> set xs"
proof -
  have "fold (\<lambda>v m. m(v \<mapsto> 0)) xs m v = None \<longleftrightarrow> v \<notin> set xs \<and> m v = None" for m :: "string \<rightharpoonup> nat"
    by (induction xs arbitrary: m) auto
  then show ?thesis by (simp add: id_map_def)
qed

text \<open>At most one listener per machine, exactly for the machines in the worker map, all of them current.\<close>

definition watcher_inv :: "watcher \<Rightarrow> bool" where
  "watcher_inv s \<longleftrightarrow> distinct (live s) \<and> set (live s) = dom (workers s) \<and> dom (workers s) \<subseteq> set (lastVMIDs s)"

lemma add_worker_step:
  "workers (add_worker os v s) = (case newVSockWorker os v of Inl e \<Rightarrow> workers s | Inr wk \<Rightarrow> (workers s)(v \<mapsto> wk))"
  "live (add_worker os v s) = (case newVSockWorker os v of Inl e \<Rightarrow> live s | Inr wk \<Rightarrow> v # live s)"
  "lastVMIDs (add_worker os v s) = lastVMIDs s"
  by (simp_all add: add_worker_def split: sum.split)

lemma del_worker_step:
  "workers (del_worker v s) = (workers s)(v := None)"
  "live (del_worker v s) = (if v \<in> dom (workers s) then remove1 v (live s) else live s)"
  by (auto simp: del_worker_def split: option.split)

lemma add_workers:
  assumes "distinct vs" "set vs \<inter> dom (workers s) = {}" "distinct (live s)" "set (live s) = dom (workers s)"
  shows "distinct (live (fold (add_worker os) vs s)) \<and>
    set (live (fold (add_worker os) vs s)) = dom (workers (fold (add_worker os) vs s)) \<and>
    dom (workers (fold (add_worker os) vs s)) = dom (workers s) \<union> {v \<in> set vs. \<exists>wk. newVSockWorker os v = Inr wk}"
  using assms
proof (induction vs arbitrary: s)
  case (Cons v vs)
  define s1 where "s1 = add_worker os v s"
  have d: "dom (workers s1) = dom (workers s) \<union> {u \<in> {v}. \<exists>wk. newVSockWorker os u = Inr wk}"
    by (auto simp: s1_def add_worker_step split: sum.splits if_splits)
  moreover have "distinct (live s1)" "set (live s1) = dom (workers s1)"
    using Cons.prems by (auto simp: s1_def add_worker_step split: sum.splits)
  moreover have "distinct vs" "set vs \<inter> dom (workers s1) = {}" using Cons.prems d by auto
  ultimately show ?case using Cons.IH [of s1] by (auto simp: s1_def [symmetric])
qed simp

lemma del_workers:
  assumes "distinct (live s)" "set (live s) = dom (workers s)"
  shows "distinct (live (fold del_worker vs s)) \<and>
    set (live (fold del_worker vs s)) = dom (workers (fold del_worker vs s)) \<and>
    dom (workers (fold del_worker vs s)) = dom (workers s) - set vs"
  using assms
proof (induction vs arbitrary: s)
  case (Cons v vs)
  define s1 where "s1 = del_worker v s"
  have "dom (workers s1) = dom (workers s) - {v}" "distinct (live s1)" "set (live s1) = dom (workers s1)"
    using Cons.prems by (auto simp: s1_def del_worker_step)
  with Cons.IH [of s1] show ?case by (auto simp: s1_def [symmetric])
qed simp

lemma watch_round_inv:
  assumes "watcher_inv s" "distinct vmids"
  shows "watcher_inv (watch_round os vmids s)"
    and "dom (workers (watch_round os vmids s)) =
      {v \<in> set vmids. v \<in> dom (workers s) \<or> v \<notin> set (lastVMIDs s) \<and> (\<exists>wk. newVSockWorker os v = Inr wk)}"
proof -
  let ?add = "filter (\<lambda>v. v \<notin> set (lastVMIDs s)) vmids" and ?del = "filter (\<lambda>v. v \<notin> set vmids) (lastVMIDs s)"
  define s1 where "s1 = fold (add_worker os) ?add s"
  have r: "watch_round os vmids s = (fold del_worker ?del s1)\<lparr>lastVMIDs := vmids\<rparr>"
    by (simp add: watch_round_def vmidDiff_def s1_def Let_def)
  note inv = assms(1) [unfolded watcher_inv_def]
  have dj: "set ?add \<inter> dom (workers s) = {}" using inv by auto
  have 1: "distinct (live s1)" "set (live s1) = dom (workers s1)"
    "dom (workers s1) = dom (workers s) \<union> {v \<in> set ?add. \<exists>wk. newVSockWorker os v = Inr wk}"
    using add_workers [OF _ dj, of os] inv assms(2) by (simp_all add: s1_def)
  note 2 = del_workers [OF 1(1,2), of ?del]
  show d: "dom (workers (watch_round os vmids s)) =
      {v \<in> set vmids. v \<in> dom (workers s) \<or> v \<notin> set (lastVMIDs s) \<and> (\<exists>wk. newVSockWorker os v = Inr wk)}"
    using 2 1(3) inv by (auto simp: r)
  show "watcher_inv (watch_round os vmids s)"
    using 2 d by (auto simp: watcher_inv_def r)
qed

lemma wsl2Watcher_inv:
  assumes "watcher_inv s" "list_all (\<lambda>(os, vmids). distinct vmids) rounds"
  shows "watcher_inv (wsl2Watcher rounds s)"
  using assms by (induction rounds s rule: wsl2Watcher.induct) (auto simp: watch_round_inv)

subsection \<open>Properties\<close>

text \<open>
  Whatever machines come and go, the watcher has at most one listener per machine, its
  map of workers names exactly the machines with a listener, and after each round these are
  machines of the last report: the listeners of machines that are gone have been closed.
\<close>

theorem wsl2Watcher_workers:
  assumes "list_all (\<lambda>(os, vmids). distinct vmids) rounds"
  shows "distinct (live (wsl2Watcher rounds watcher_start)) \<and>
    set (live (wsl2Watcher rounds watcher_start)) = dom (workers (wsl2Watcher rounds watcher_start)) \<and>
    set (live (wsl2Watcher rounds watcher_start)) \<subseteq> set (lastVMIDs (wsl2Watcher rounds watcher_start))"
  using wsl2Watcher_inv [OF _ assms, of watcher_start] by (simp add: watcher_inv_def watcher_start_def)

theorem wsl2Watcher_workers_witness:
  "live (wsl2Watcher [(\<lparr>GUIDFromString = (\<lambda>v. None), ListenHvsock = (\<lambda>v. Inr 1)\<rparr>, [''a'', ''b'']),
                      (\<lparr>GUIDFromString = (\<lambda>v. None), ListenHvsock = (\<lambda>v. Inr 1)\<rparr>, [''b''])] watcher_start) = [''b''] \<and>
   set (live (wsl2Watcher [(\<lparr>GUIDFromString = (\<lambda>v. None), ListenHvsock = (\<lambda>v. Inr 1)\<rparr>, [''a'', ''b''])] watcher_start)) \<subseteq> {''a'', ''b''}"
  using wsl2Watcher_workers [of "[(\<lparr>GUIDFromString = (\<lambda>v. None), ListenHvsock = (\<lambda>v. Inr 1)\<rparr>, [''a'', ''b''])]"]
  by (simp add: watch_round_def vmidDiff_def watcher_start_def add_worker_def del_worker_def newVSockWorker_def id_map_def Let_def)

text \<open>
  A machine whose listener could not be opened is not tried again while it keeps running.
\<close>

lemma watch_round_no_retry:
  assumes "watcher_inv s" "distinct vmids" "v \<in> set (lastVMIDs s)" "v \<notin> dom (workers s)"
  shows "v \<notin> dom (workers (watch_round os vmids s))"
  using assms by (simp add: watch_round_inv)

lemma strip_all_result:
  "strip_all ks = (if \<exists>k \<in> set ks. length k < 2 then Panic ''slice bounds out of range''
     else Ret (map (\<lambda>k. take (length k - 2) (drop 1 k)) ks))"
  by (induction ks) (auto simp: strip_ends_def)

lemma brace_arg_Some: "brace_arg args = Some k \<Longrightarrow> CHR 0x7B \<in> set k"
  by (auto simp: brace_arg_def find_Some_iff)

text \<open>
  Property C40. Reading the machines' identifiers panics exactly when some process has a bare brace
  as its last argument with a brace; otherwise every identifier is such an argument without its
  first and last character.
\<close>

theorem GetVMIDs_panics_iff:
  assumes "set (order ks) = set ks" and "ks = remdups (List.map_filter (\<lambda>l. brace_arg (split_spaces l)) lines)"
  shows "((\<exists>m. GetVMIDs order (Inr lines) = Panic m) \<longleftrightarrow> (\<exists>l \<in> set lines. brace_arg (split_spaces l) = Some [CHR 0x7B])) \<and>
    (\<forall>vs. GetVMIDs order (Inr lines) = Ret vs \<longrightarrow>
      set vs = {take (length k - 2) (drop 1 k) | k l. l \<in> set lines \<and> brace_arg (split_spaces l) = Some k})"
proof -
  note ks = assms(1)
  have set_ks: "set ks = {k. \<exists>l \<in> set lines. brace_arg (split_spaces l) = Some k}"
    by (force simp: assms(2) List.map_filter_def)
  have brace: "CHR 0x7B \<in> set k" if "k \<in> set ks" for k using that set_ks brace_arg_Some by blast
  have "length k < 2 \<longleftrightarrow> k = [CHR 0x7B]" if "k \<in> set ks" for k
  proof (cases k)
    case (Cons a as)
    with brace [OF that] show ?thesis by (cases as) auto
  qed (use brace [OF that] in simp)
  then have "(\<exists>k \<in> set (order ks). length k < 2) \<longleftrightarrow> [CHR 0x7B] \<in> set ks" using ks by auto
  then show ?thesis
    using set_ks ks by (auto simp: GetVMIDs_def assms(2) [symmetric] strip_all_result)
qed

theorem GetVMIDs_panics_iff_witness:
  "\<exists>m. GetVMIDs (\<lambda>ks. ks) (Inr [''h '' @ [CHR 0x7B]]) = Panic m"
proof -
  let ?l = "''h '' @ [CHR 0x7B]"
  have b: "brace_arg (split_spaces ?l) = Some [CHR 0x7B]" by (simp add: brace_arg_def)
  have "[[CHR 0x7B]] = remdups (List.map_filter (\<lambda>l. brace_arg (split_spaces l)) [?l])"
    using b by (simp add: List.map_filter_def del: split_spaces.simps)
  from GetVMIDs_panics_iff [OF _ this, of "\<lambda>ks. ks"] b show ?thesis by auto
qed

end
