(* ===== verification/Capi.thy ===== *)
theory Capi
  imports Utils_Misc
begin

section \<open>CryptoAPI (\<^verbatim>\<open>capi/wincapi.go\<close>)\<close>

text \<open>
  The certificate store of the user and signing with a smart card. Every call to the system is
  appended to a history, and the answer of the system to a call is a function of the history
  before it and of the arguments (the record \<open>capi_api\<close>), so nothing is assumed of how the
  system behaves except in the hypotheses of the theorems. The parsers \<^verbatim>\<open>x509.ParseCertificate\<close>
  and \<^verbatim>\<open>pkcs7.Parse\<close> are fields of the same record. A Go \<^verbatim>\<open>uintptr\<close> that holds a handle or a
  context is a natural number, 0 being the null pointer.
\<close>

type_synonym errno = nat

datatype os_event =
    CertOpenStore
  | CertCloseStore nat
  | CertEnumCertificatesInStore nat nat
  | CertGetCertificateContextProperty nat nat
  | CertDuplicateCertificateContext nat errno
  | CertFreeCertificateContext nat
  | CryptAcquireCertificatePrivateKey nat uint32
  | NCryptSetProperty nat string "string option" uint64 uint32
  | NCryptFreeObject nat
  | CryptSignMessage string nat bytes
  | Notify string string
  | CheckSCardSvrStatus
  | MessageBox string string nat
  | StartSCardSvr
  | OpenFile string
  | HvDial nat
  | HvClose nat

type_synonym hist = "os_event list"

text \<open>
  What the agent uses of a parsed X.509 certificate: its key (for ECDSA the bit size of the curve
  and the encoded point), serial number, subject and extended key usages.
\<close>

datatype x509_key = RsaPub bytes | EcdsaPub nat bytes | OtherPub bytes

record x509_cert =
  x_key :: x509_key
  x_serial :: string
  x_common :: string
  x_eku :: "nat list"
  x_unknown_eku :: "nat list list"

record Certificate =
  certContext :: nat
  x509 :: x509_cert

text \<open>A parsed PKCS7 message: the encrypted digests of its signers.\<close>

record pkcs7 =
  Signers :: "bytes list"

record capi_api =
  a_openStore :: "hist \<Rightarrow> nat outcome"
  a_enum :: "hist \<Rightarrow> nat \<Rightarrow> nat \<Rightarrow> nat \<times> go_error option"
  a_prop :: "hist \<Rightarrow> nat \<Rightarrow> nat \<Rightarrow> nat"
  a_encoded :: "nat \<Rightarrow> bytes"
  a_dup :: "hist \<Rightarrow> nat \<Rightarrow> nat \<times> errno"
  a_free :: "hist \<Rightarrow> nat \<Rightarrow> go_error option"
  a_acquire :: "hist \<Rightarrow> nat \<Rightarrow> uint32 \<Rightarrow> nat \<times> errno \<times> nat \<times> uint32"
  a_setprop :: "hist \<Rightarrow> nat \<Rightarrow> string \<Rightarrow> nat \<times> errno"
  a_addr :: "hist \<Rightarrow> uint64"
  a_freeobj :: "hist \<Rightarrow> nat \<Rightarrow> nat \<times> errno"
  a_signmsg :: "hist \<Rightarrow> string \<Rightarrow> nat \<Rightarrow> bytes \<Rightarrow> nat \<times> errno \<times> bytes \<times> uint32"
  ParseCertificate :: "bytes \<Rightarrow> x509_cert outcome"
  pkcs7_Parse :: "bytes \<Rightarrow> pkcs7 outcome"

definition ALG_RSA_SHA1RSA :: string where "ALG_RSA_SHA1RSA = ''1.2.840.113549.1.1.5''"
definition ALG_RSA_SHA256RSA :: string where "ALG_RSA_SHA256RSA = ''1.2.840.113549.1.1.11''"
definition ALG_RSA_SHA512RSA :: string where "ALG_RSA_SHA512RSA = ''1.2.840.113549.1.1.13''"
definition ALG_ECDSA_SHA256 :: string where "ALG_ECDSA_SHA256 = ''1.2.840.10045.4.3.2''"
definition ALG_ECDSA_SHA384 :: string where "ALG_ECDSA_SHA384 = ''1.2.840.10045.4.3.3''"
definition ALG_ECDSA_SHA512 :: string where "ALG_ECDSA_SHA512 = ''1.2.840.10045.4.3.4''"
definition NCRYPT_PIN_PROPERTY :: string where "NCRYPT_PIN_PROPERTY = ''SmartCardPin''"
definition CRYPT_ACQUIRE_CACHE_FLAG :: uint32 where "CRYPT_ACQUIRE_CACHE_FLAG = 0x00000001"
definition CRYPT_ACQUIRE_ONLY_NCRYPT_KEY_FLAG :: uint32 where "CRYPT_ACQUIRE_ONLY_NCRYPT_KEY_FLAG = 0x00040000"
definition CRYPT_E_NOT_FOUND :: errno where "CRYPT_E_NOT_FOUND = 0x80092004"
definition CERT_KEY_SPEC_PROP_ID :: nat where "CERT_KEY_SPEC_PROP_ID = 6"

text \<open>
  \<^verbatim>\<open>syscall.BytePtrFromString\<close> and \<^verbatim>\<open>UTF16PtrFromString\<close> refuse a string with a NUL in it.
\<close>

definition no_nul :: "string \<Rightarrow> bool" where
  "no_nul s = (CHR 0x00 \<notin> set s)"

subsection \<open>The system calls\<close>

text \<open>
  The output buffer has 8192 bytes; slicing it with the size the system reports panics when that
  is larger.
\<close>

definition cryptSignMessage :: "capi_api \<Rightarrow> hist \<Rightarrow> string \<Rightarrow> nat \<Rightarrow> bytes \<Rightarrow> hist \<times> bytes outcome" where
  "cryptSignMessage api h alg signingCert dat =
     (if dat = [] then (h, Fail (Errorf ''cryptSignMessage: empty data''))
      else case a_signmsg api h alg signingCert dat of (r0, e1, out, sz) \<Rightarrow>
        (let h' = h @ [CryptSignMessage alg signingCert dat];
             result = put_at 0 (take 0x2000 out) (replicate 0x2000 0) in
         if e1 \<noteq> 0 then (h', Fail (Errno e1))
         else if r0 = 0 then (h', Fail (Errorf ''failed to sign''))
         else if 0x2000 < unat sz then (h', Panic ''slice bounds out of range'')
         else (h', Ret (take (unat sz) result))))"

definition certDuplicateCertificateContext :: "capi_api \<Rightarrow> hist \<Rightarrow> nat \<Rightarrow> hist \<times> nat outcome" where
  "certDuplicateCertificateContext api h context =
     (case a_dup api h context of (r0, e1) \<Rightarrow>
       (h @ [CertDuplicateCertificateContext context e1], if e1 \<noteq> 0 then Fail (Errno e1) else Ret r0))"

definition certGetCertificateContextProperty :: "capi_api \<Rightarrow> hist \<Rightarrow> nat \<Rightarrow> nat \<Rightarrow> hist \<times> nat" where
  "certGetCertificateContextProperty api h context dwPropId =
     (h @ [CertGetCertificateContextProperty context dwPropId], a_prop api h context dwPropId)"

text \<open>
  The fourth argument of the call is the address of the length (\<^verbatim>\<open>dataSizePtr\<close>), not the length.
\<close>

definition nCryptSetPropertyString :: "capi_api \<Rightarrow> hist \<Rightarrow> nat \<Rightarrow> string \<Rightarrow> string \<Rightarrow> uint32 \<Rightarrow> hist \<times> go_error option" where
  "nCryptSetPropertyString api h hObject pszProperty pbInput dwFlags =
     (let dataPtr = (if pbInput \<noteq> [] \<and> no_nul pbInput then Some pbInput else None);
          dataSizePtr = a_addr api h
      in case a_setprop api h hObject pszProperty of (r0, e1) \<Rightarrow>
        (h @ [NCryptSetProperty hObject pszProperty dataPtr dataSizePtr dwFlags],
         if r0 \<noteq> 0 then Some (Errno e1)
         else if e1 \<noteq> 0 then Some (Errno e1)
         else None))"

definition cryptAcquireCertificatePrivateKey :: "capi_api \<Rightarrow> hist \<Rightarrow> nat \<Rightarrow> uint32 \<Rightarrow> hist \<times> (nat \<times> bool) outcome" where
  "cryptAcquireCertificatePrivateKey api h ctx flags =
     (case a_acquire api h ctx flags of (r0, e1, key, callerFree) \<Rightarrow>
       (h @ [CryptAcquireCertificatePrivateKey ctx flags],
        if r0 = 0 then Fail (Errorf ''r0 was 0'')
        else if e1 \<noteq> 0 then Fail (Errno e1)
        else Ret (key, callerFree \<noteq> 0)))"

definition nCryptFreeObject :: "capi_api \<Rightarrow> hist \<Rightarrow> nat \<Rightarrow> hist \<times> go_error option" where
  "nCryptFreeObject api h hObject =
     (case a_freeobj api h hObject of (r0, e1) \<Rightarrow>
       (h @ [NCryptFreeObject hObject], if r0 \<noteq> 0 then Some (Errno e1) else None))"

subsection \<open>Certificates\<close>

definition Certificate_Free :: "capi_api \<Rightarrow> hist \<Rightarrow> Certificate \<Rightarrow> hist \<times> go_error option" where
  "Certificate_Free api h s =
     (h @ [CertFreeCertificateContext (certContext s)], a_free api h (certContext s))"

definition Certificate_Copy :: "capi_api \<Rightarrow> hist \<Rightarrow> Certificate \<Rightarrow> hist \<times> Certificate outcome" where
  "Certificate_Copy api h s =
     (case certDuplicateCertificateContext api h (certContext s) of
        (h', Ret c) \<Rightarrow> (h', Ret \<lparr>certContext = c, x509 = x509 s\<rparr>)
      | (h', Fail e) \<Rightarrow> (h', Fail e)
      | (h', Panic m) \<Rightarrow> (h', Panic m))"

text \<open>The copy of the encoding is as long as the encoding; what lies beyond 1 MB stays zero.\<close>

definition copy_encoded :: "bytes \<Rightarrow> bytes" where
  "copy_encoded enc = put_at 0 (take 1048576 enc) (replicate (length enc) 0)"

text \<open>
  One certificate of the enumeration: it is kept if it has a private key, parses, and can be
  duplicated.
\<close>

definition consider_cert :: "capi_api \<Rightarrow> hist \<Rightarrow> nat \<Rightarrow> hist \<times> Certificate option" where
  "consider_cert api h cert =
     (case certGetCertificateContextProperty api h cert CERT_KEY_SPEC_PROP_ID of (h1, propID) \<Rightarrow>
        if propID = 0 then (h1, None)
        else case ParseCertificate api (copy_encoded (a_encoded api cert)) of
          Ret c \<Rightarrow>
            (case certDuplicateCertificateContext api h1 cert of
               (h2, Ret cc) \<Rightarrow> (h2, Some \<lparr>certContext = cc, x509 = c\<rparr>)
             | (h2, _) \<Rightarrow> (h2, None))
        | _ \<Rightarrow> (h1, None))"

partial_function (option) enum_loop ::
  "capi_api \<Rightarrow> nat \<Rightarrow> hist \<Rightarrow> nat \<Rightarrow> Certificate list \<Rightarrow> (hist \<times> Certificate list outcome) option" where
  "enum_loop api store h cert certs =
     (case a_enum api h store cert of (cert', err) \<Rightarrow>
       let h1 = h @ [CertEnumCertificatesInStore store cert] in
       case err of
         Some e \<Rightarrow> if e = Errno CRYPT_E_NOT_FOUND then Some (h1, Ret certs) else Some (h1, Fail e)
       | None \<Rightarrow>
           if cert' = 0 then Some (h1, Ret certs)
           else case consider_cert api h1 cert' of (h2, c) \<Rightarrow>
             enum_loop api store h2 cert' (certs @ (case c of None \<Rightarrow> [] | Some x \<Rightarrow> [x])))"

definition LoadUserCerts :: "capi_api \<Rightarrow> hist \<Rightarrow> (hist \<times> Certificate list outcome) option" where
  "LoadUserCerts api h =
     (case a_openStore api h of
        Ret store \<Rightarrow>
          (case enum_loop api store (h @ [CertOpenStore]) 0 [] of
             None \<Rightarrow> None
           | Some (h', r) \<Rightarrow> Some (h' @ [CertCloseStore store], r))
      | Fail e \<Rightarrow> Some (h @ [CertOpenStore], Fail e)
      | Panic m \<Rightarrow> Some (h @ [CertOpenStore], Panic m))"

subsection \<open>Signing\<close>

text \<open>
  The deferred function of \<^verbatim>\<open>Sign\<close>, and the part of \<^verbatim>\<open>Sign\<close> it is deferred over. A deferred function
  also runs when that part panics. \<open>disablePINCache\<close> is the package variable that
  \<^verbatim>\<open>SetDisablePINCache\<close> sets.
\<close>

definition Sign_deferred :: "capi_api \<Rightarrow> nat \<Rightarrow> bool \<Rightarrow> hist \<Rightarrow> hist" where
  "Sign_deferred api nCryptHandle freeHandle h =
     (let h1 = fst (nCryptSetPropertyString api h nCryptHandle NCRYPT_PIN_PROPERTY [] 0) in
      if freeHandle then fst (nCryptFreeObject api h1 nCryptHandle) else h1)"

definition Sign_body :: "capi_api \<Rightarrow> hist \<Rightarrow> string \<Rightarrow> Certificate \<Rightarrow> bytes \<Rightarrow> hist \<times> pkcs7 outcome" where
  "Sign_body api h alg cert dat =
     (if \<not> no_nul alg then (h, Fail EINVAL)
      else case cryptSignMessage api h alg (certContext cert) dat of
        (h', Ret sign) \<Rightarrow> (h', pkcs7_Parse api sign)
      | (h', Fail e) \<Rightarrow> (h', Fail e)
      | (h', Panic m) \<Rightarrow> (h', Panic m))"

definition Sign :: "capi_api \<Rightarrow> bool \<Rightarrow> hist \<Rightarrow> string \<Rightarrow> Certificate \<Rightarrow> bytes \<Rightarrow> hist \<times> pkcs7 outcome" where
  "Sign api disablePINCache h alg cert dat =
     (if disablePINCache then
        (case cryptAcquireCertificatePrivateKey api h (certContext cert)
                (CRYPT_ACQUIRE_CACHE_FLAG OR CRYPT_ACQUIRE_ONLY_NCRYPT_KEY_FLAG) of
           (h1, Ret (nCryptHandle, freeHandle)) \<Rightarrow>
             (case Sign_body api h1 alg cert dat of (h2, r) \<Rightarrow>
               (if nCryptHandle \<noteq> 0 then Sign_deferred api nCryptHandle freeHandle h2 else h2, r))
         | (h1, Fail e) \<Rightarrow> (h1, Fail e)
         | (h1, Panic m) \<Rightarrow> (h1, Panic m))
      else Sign_body api h alg cert dat)"

definition SetDisablePINCache :: "bool \<Rightarrow> bool \<Rightarrow> bool" where
  "SetDisablePINCache b old = b"

subsection \<open>The reference ledger\<close>

text \<open>
  Every successful duplication of a certificate context obliges this process to free that context
  once. \<open>refs h c\<close> is what is still owed for the context \<open>c\<close> after the calls \<open>h\<close>.
\<close>

definition refs :: "hist \<Rightarrow> nat \<Rightarrow> int" where
  "refs h c = int (count_list h (CertDuplicateCertificateContext c 0)) - int (count_list h (CertFreeCertificateContext c))"

definition held :: "Certificate list \<Rightarrow> nat \<Rightarrow> int" where
  "held cs c = int (count_list (map certContext cs) c)"

text \<open>The documented behaviour of \<^verbatim>\<open>CertDuplicateCertificateContext\<close>: it returns the context it is given.\<close>

definition dup_same :: "capi_api \<Rightarrow> bool" where
  "dup_same api = (\<forall>h c. snd (a_dup api h c) = 0 \<longrightarrow> fst (a_dup api h c) = c)"

lemma refs_append [simp]: "refs (h @ es) c = refs h c + refs es c"
  by (simp add: refs_def)

lemma refs_Nil [simp]: "refs [] c = 0"
  by (simp add: refs_def)

lemma refs_dup [simp]: "refs [CertDuplicateCertificateContext d e] c = (if d = c \<and> e = 0 then 1 else 0)"
  by (simp add: refs_def)

lemma refs_free [simp]: "refs [CertFreeCertificateContext d] c = (if d = c then -1 else 0)"
  by (simp add: refs_def)

definition refless :: "os_event \<Rightarrow> bool" where
  "refless e = (case e of CertDuplicateCertificateContext _ _ \<Rightarrow> False | CertFreeCertificateContext _ \<Rightarrow> False | _ \<Rightarrow> True)"

lemma refs_refless [simp]: "refless e \<Longrightarrow> refs [e] c = 0"
  by (auto simp: refs_def refless_def split: os_event.splits)

lemma refs_list_refless: "list_all refless es \<Longrightarrow> refs es c = 0"
proof (induction es)
  case (Cons e es)
  then show ?case using refs_append [of "[e]" es c] by simp
qed simp

lemma held_Nil [simp]: "held [] c = 0"
  by (simp add: held_def)

lemma held_append [simp]: "held (xs @ ys) c = held xs c + held ys c"
  by (simp add: held_def)

lemma held_Cons [simp]: "held (x # xs) c = (if certContext x = c then 1 else 0) + held xs c"
  by (simp add: held_def)

lemma consider_cert_refs:
  assumes "dup_same api" "consider_cert api h cert = (h', r)"
  shows "refs h' c = refs h c + held (case r of None \<Rightarrow> [] | Some x \<Rightarrow> [x]) c"
proof -
  obtain d e where de: "a_dup api (h @ [CertGetCertificateContextProperty cert CERT_KEY_SPEC_PROP_ID]) cert = (d, e)"
    by (cases "a_dup api (h @ [CertGetCertificateContextProperty cert CERT_KEY_SPEC_PROP_ID]) cert")
  have "e = 0 \<Longrightarrow> d = cert"
    using assms(1) de unfolding dup_same_def by (metis fst_conv snd_conv)
  with assms(2) de show ?thesis
    by (auto simp: consider_cert_def certGetCertificateContextProperty_def certDuplicateCertificateContext_def
        refs_def refless_def split: if_splits outcome.splits)
qed

lemma enum_loop_refs:
  assumes "enum_loop api store h cert certs = Some y" "dup_same api"
  shows "\<exists>got. (\<forall>c. refs (fst y) c = refs h c + held got c) \<and> (\<forall>rs. snd y = Ret rs \<longrightarrow> rs = certs @ got)"
  using assms
proof (induction rule: enum_loop.raw_induct [rotated 1, consumes 1, case_names 1])
  case (1 loop api store h cert certs y)
  obtain c1 err where en: "a_enum api h store cert = (c1, err)" by (cases "a_enum api h store cert")
  let ?h1 = "h @ [CertEnumCertificatesInStore store cert]"
  have *: "refs ?h1 c = refs h c" for c by (simp add: refless_def)
  show ?case
  proof (cases "err = None \<and> c1 \<noteq> 0")
    case False
    with 1(2) en have "fst y = ?h1 \<and> (\<forall>rs. snd y = Ret rs \<longrightarrow> rs = certs)"
      by (auto simp: Let_def split: option.splits if_splits)
    then show ?thesis using * by (intro exI [of _ "[]"]) simp
  next
    case True
    obtain h2 x where cc: "consider_cert api ?h1 c1 = (h2, x)" by (cases "consider_cert api ?h1 c1")
    let ?new = "case x of None \<Rightarrow> [] | Some v \<Rightarrow> [v]"
    have "loop api store h2 c1 (certs @ ?new) = Some y"
      using 1(2) en cc True by (simp add: Let_def)
    from 1(1) [OF this 1(3)] obtain got where
      g: "\<And>c. refs (fst y) c = refs h2 c + held got c" "\<And>rs. snd y = Ret rs \<Longrightarrow> rs = (certs @ ?new) @ got"
      by blast
    show ?thesis
      using g consider_cert_refs [OF 1(3) cc] *
      by (intro exI [of _ "?new @ got"]) simp
  qed
qed

lemma LoadUserCerts_refs:
  assumes "LoadUserCerts api h = Some (h', Ret certs)" "dup_same api"
  shows "refs h' c = refs h c + held certs c"
proof -
  obtain store h1 where *: "enum_loop api store (h @ [CertOpenStore]) 0 [] = Some (h1, Ret certs)"
      "h' = h1 @ [CertCloseStore store]"
    using assms(1) by (auto simp: LoadUserCerts_def split: outcome.splits option.splits)
  from enum_loop_refs [OF this(1) assms(2)] this(2) show ?thesis
    by (auto simp: refless_def)
qed

lemma LoadUserCerts_refs_mono:
  assumes "LoadUserCerts api h = Some (h', r)" "dup_same api"
  shows "refs h c \<le> refs h' c"
proof (cases "a_openStore api h")
  case (Ret store)
  with assms(1) obtain h1 where *: "enum_loop api store (h @ [CertOpenStore]) 0 [] = Some (h1, r)"
      "h' = h1 @ [CertCloseStore store]"
    by (auto simp: LoadUserCerts_def split: option.splits)
  obtain got where "refs h1 c = refs (h @ [CertOpenStore]) c + held got c"
    using enum_loop_refs [OF *(1) assms(2)] by auto
  moreover have "0 \<le> held got c" by (simp add: held_def)
  ultimately show ?thesis using *(2) by (simp add: refless_def)
qed (use assms(1) in \<open>auto simp: LoadUserCerts_def refless_def\<close>)

subsection \<open>Signing leaves no PIN behind\<close>

text \<open>The call the body of \<^verbatim>\<open>Sign\<close> makes, and the calls of its deferred function.\<close>

definition sign_calls :: "string \<Rightarrow> Certificate \<Rightarrow> bytes \<Rightarrow> hist" where
  "sign_calls alg cert dat = (if no_nul alg \<and> dat \<noteq> [] then [CryptSignMessage alg (certContext cert) dat] else [])"

definition acquire_flags :: uint32 where
  "acquire_flags = (CRYPT_ACQUIRE_CACHE_FLAG OR CRYPT_ACQUIRE_ONLY_NCRYPT_KEY_FLAG)"

lemma Sign_body_calls: "fst (Sign_body api h alg cert dat) = h @ sign_calls alg cert dat"
  by (auto simp: Sign_body_def sign_calls_def cryptSignMessage_def Let_def split: outcome.splits prod.splits if_splits)

lemma Sign_deferred_calls:
  "Sign_deferred api k f h = h @ NCryptSetProperty k NCRYPT_PIN_PROPERTY None (a_addr api h) 0 # (if f then [NCryptFreeObject k] else [])"
  by (simp add: Sign_deferred_def nCryptSetPropertyString_def nCryptFreeObject_def Let_def split: prod.splits)

lemma Sign_calls:
  "fst (Sign api dis h alg cert dat) =
    (if dis then
       (case a_acquire api h (certContext cert) acquire_flags of (r0, e1, k, f) \<Rightarrow>
         let h1 = h @ [CryptAcquireCertificatePrivateKey (certContext cert) acquire_flags] in
         if r0 = 0 \<or> e1 \<noteq> 0 then h1
         else (let h2 = h1 @ sign_calls alg cert dat in
               if k = 0 then h2 else Sign_deferred api k (f \<noteq> 0) h2))
     else h @ sign_calls alg cert dat)"
  by (auto simp: Sign_def cryptAcquireCertificatePrivateKey_def Sign_body_calls Let_def
      acquire_flags_def split: prod.splits) (metis Sign_body_calls fst_conv append.assoc append_Cons append_Nil)+

lemma sign_calls_refless: "list_all refless (sign_calls alg cert dat)"
  by (simp add: sign_calls_def refless_def)

lemma Sign_refs: "refs (fst (Sign api dis h alg cert dat)) c = refs h c"
  by (simp add: Sign_calls Sign_deferred_calls Let_def refs_list_refless sign_calls_refless refless_def split: prod.splits)

subsection \<open>Properties\<close>

text \<open>
  A store of two certificates (contexts 11 and 12, the second without a private key) and a card
  that signs with one byte, for the examples; \<open>ok\<close> decides whether enumerating past the first
  certificate works.
\<close>

definition demo_x509 :: x509_cert where
  "demo_x509 = \<lparr>x_key = RsaPub [1], x_serial = ''77'', x_common = ''me'', x_eku = [2], x_unknown_eku = []\<rparr>"

definition capi_demo :: "bool \<Rightarrow> capi_api" where
  "capi_demo ok = \<lparr>a_openStore = (\<lambda>h. Ret 5),
     a_enum = (\<lambda>h st prev. if prev = 0 then (11, None) else if \<not> ok then (0, Some (Errno 1235))
                else if prev = 11 then (12, None) else (0, Some (Errno CRYPT_E_NOT_FOUND))),
     a_prop = (\<lambda>h c p. if c = 11 then 1 else 0), a_encoded = (\<lambda>c. [48]),
     a_dup = (\<lambda>h c. (c, 0)), a_free = (\<lambda>h c. None),
     a_acquire = (\<lambda>h c f. (1, 0, 99, 1)), a_setprop = (\<lambda>h k p. (0, 0)), a_addr = (\<lambda>h. 4096),
     a_freeobj = (\<lambda>h k. (0, 0)), a_signmsg = (\<lambda>h a c d. (1, 0, [42], 1)),
     ParseCertificate = (\<lambda>b. Ret demo_x509), pkcs7_Parse = (\<lambda>b. Ret \<lparr>Signers = [b]\<rparr>)\<rparr>"

lemma dup_same_demo [simp]: "dup_same (capi_demo ok)"
  by (simp add: dup_same_def capi_demo_def)

text \<open>
  Property C4. With the PIN cache disabled, once the key handle was acquired the PIN is reset on
  every path, after the signing call if there is one and whether or not that call failed or
  panicked; the handle is freed after the reset, and only if Windows said that the caller owns it.
\<close>

theorem Sign_resets_pin:
  assumes "a_acquire api h (certContext cert) acquire_flags = (r0, 0, k, f)" and "r0 \<noteq> 0" and "k \<noteq> 0"
  shows "\<exists>addr. fst (Sign api True h alg cert dat) =
    h @ CryptAcquireCertificatePrivateKey (certContext cert) acquire_flags # sign_calls alg cert dat @
      NCryptSetProperty k NCRYPT_PIN_PROPERTY None addr 0 # (if f \<noteq> 0 then [NCryptFreeObject k] else [])"
  using assms by (simp add: Sign_calls Sign_deferred_calls Let_def)

theorem Sign_resets_pin_witness:
  "\<exists>addr. fst (Sign (capi_demo True) True [] ''1.2'' \<lparr>certContext = 11, x509 = demo_x509\<rparr> [7]) =
    [CryptAcquireCertificatePrivateKey 11 acquire_flags, CryptSignMessage ''1.2'' 11 [7],
     NCryptSetProperty 99 NCRYPT_PIN_PROPERTY None addr 0, NCryptFreeObject 99]"
  using Sign_resets_pin [of "capi_demo True" "[]" "\<lparr>certContext = 11, x509 = demo_x509\<rparr>" 1 99 1 "''1.2''" "[7]"]
  by (simp add: capi_demo_def sign_calls_def no_nul_def)

text \<open>
  A key handle is freed by \<^verbatim>\<open>Sign\<close> only when the cache was to be bypassed, the system
  handed out that handle in this very call, and it said that the caller must free it; in every
  other case neither a PIN reset nor a free happens.
\<close>

theorem Sign_frees_owned_only:
  assumes "NCryptFreeObject k \<in> set (drop (length h) (fst (Sign api dis h alg cert dat)))"
  shows "dis \<and> k \<noteq> 0 \<and> (\<exists>r0 f. a_acquire api h (certContext cert) acquire_flags = (r0, 0, k, f) \<and> r0 \<noteq> 0 \<and> f \<noteq> 0)"
  using assms
  by (auto simp: Sign_calls Sign_deferred_calls Let_def sign_calls_def split: prod.splits if_splits)

theorem Sign_frees_owned_only_witness:
  "NCryptFreeObject 99 \<in> set (fst (Sign (capi_demo True) True [] ''1.2'' \<lparr>certContext = 11, x509 = demo_x509\<rparr> [7])) \<and>
   (\<exists>r0 f. a_acquire (capi_demo True) [] 11 acquire_flags = (r0, 0, 99, f) \<and> f \<noteq> 0)"
proof -
  have *: "NCryptFreeObject 99 \<in> set (fst (Sign (capi_demo True) True [] ''1.2'' \<lparr>certContext = 11, x509 = demo_x509\<rparr> [7]))"
    by (simp add: Sign_calls Sign_deferred_calls capi_demo_def sign_calls_def no_nul_def Let_def)
  then show ?thesis
    using Sign_frees_owned_only [of 99 "[]" "capi_demo True" True "''1.2''" "\<lparr>certContext = 11, x509 = demo_x509\<rparr>" "[7]"]
    by auto
qed

lemma Sign_body_Ret:
  "Sign api dis h alg cert dat = (h', Ret p7) \<Longrightarrow> \<exists>h1. snd (Sign_body api h1 alg cert dat) = Ret p7"
  by (auto simp: Sign_def cryptAcquireCertificatePrivateKey_def split: if_splits prod.splits outcome.splits) (metis snd_conv)+

lemma Sign_signs:
  assumes "Sign api dis h alg cert dat = (h', Ret p7)"
  shows "CryptSignMessage alg (certContext cert) dat \<in> set h'"
  using assms arg_cong [OF assms, of fst]
  by (auto simp: Sign_calls Sign_deferred_calls Sign_def cryptAcquireCertificatePrivateKey_def Sign_body_def
      cryptSignMessage_def sign_calls_def Let_def split: if_splits prod.splits outcome.splits)

text \<open>
  Property C29. A signature comes from the card: \<^verbatim>\<open>Sign\<close> succeeds only if the system signed exactly
  this data, which is not empty, with this certificate and algorithm, and the result is what
  the PKCS7 parser makes of the bytes the system put in the buffer.
\<close>

theorem Sign_sound:
  assumes "Sign api dis h alg cert dat = (h', Ret p7)"
  shows "dat \<noteq> [] \<and> CryptSignMessage alg (certContext cert) dat \<in> set h' \<and>
    (\<exists>h1 r0 out sz. a_signmsg api h1 alg (certContext cert) dat = (r0, 0, out, sz) \<and> r0 \<noteq> 0 \<and> unat sz \<le> 0x2000 \<and>
      pkcs7_Parse api (take (unat sz) (put_at 0 (take 0x2000 out) (replicate 0x2000 0))) = Ret p7)"
  using Sign_signs [OF assms] Sign_body_Ret [OF assms]
  by (auto simp: Sign_body_def cryptSignMessage_def Let_def split: if_splits prod.splits outcome.splits) (metis not_less)+

theorem Sign_sound_witness:
  "CryptSignMessage ''1.2'' 11 [7] \<in> set (fst (Sign (capi_demo True) False [] ''1.2'' \<lparr>certContext = 11, x509 = demo_x509\<rparr> [7]))"
proof -
  have "\<exists>h' p7. Sign (capi_demo True) False [] ''1.2'' \<lparr>certContext = 11, x509 = demo_x509\<rparr> [7] = (h', Ret p7)"
    by (simp add: Sign_def Sign_body_def no_nul_def cryptSignMessage_def capi_demo_def Let_def)
  then show ?thesis
    using Sign_sound [of "capi_demo True" False "[]" "''1.2''" "\<lparr>certContext = 11, x509 = demo_x509\<rparr>" "[7]"]
    by auto
qed

text \<open>
  The documented behaviour of the enumeration over a store that holds \<open>cs\<close>: each call returns the
  context after the given one, and \<^verbatim>\<open>CRYPT_E_NOT_FOUND\<close> after the last.
\<close>

fun successor :: "nat \<Rightarrow> nat list \<Rightarrow> nat option" where
  "successor prev [] = None"
| "successor prev [c] = None"
| "successor prev (c # d # cs) = (if prev = c then Some d else successor prev (d # cs))"

definition store_lists :: "capi_api \<Rightarrow> nat \<Rightarrow> nat list \<Rightarrow> bool" where
  "store_lists api store cs \<longleftrightarrow> distinct (0 # cs) \<and>
     (\<forall>h. \<forall>prev \<in> set (0 # cs). a_enum api h store prev =
        (case successor prev (0 # cs) of Some c \<Rightarrow> (c, None) | None \<Rightarrow> (0, Some (Errno CRYPT_E_NOT_FOUND))))"

lemma successor_append: "distinct (xs @ c # d # ys) \<Longrightarrow> successor c (xs @ c # d # ys) = Some d"
proof (induction xs)
  case (Cons x xs)
  then show ?case by (cases xs) auto
qed simp

lemma successor_last: "distinct (xs @ [c]) \<Longrightarrow> successor c (xs @ [c]) = None"
proof (induction xs)
  case (Cons x xs)
  then show ?case by (cases xs) auto
qed simp

text \<open>What becomes of a certificate when the system's answers do not depend on earlier calls.\<close>

definition kept :: "capi_api \<Rightarrow> nat \<Rightarrow> Certificate option" where
  "kept api c =
     (if a_prop api [] c CERT_KEY_SPEC_PROP_ID = 0 then None
      else case ParseCertificate api (copy_encoded (a_encoded api c)) of
        Ret x \<Rightarrow> if snd (a_dup api [] c) = 0 then Some \<lparr>certContext = fst (a_dup api [] c), x509 = x\<rparr> else None
      | _ \<Rightarrow> None)"

definition steady :: "capi_api \<Rightarrow> bool" where
  "steady api \<longleftrightarrow> (\<forall>h. a_prop api h = a_prop api [] \<and> a_dup api h = a_dup api [])"

lemma consider_cert_kept:
  assumes "steady api"
  shows "snd (consider_cert api h c) = kept api c"
proof -
  have *: "a_prop api h' = a_prop api []" "a_dup api h' = a_dup api []" for h'
    using assms by (auto simp: steady_def)
  obtain d e where "a_dup api [] c = (d, e)" by (cases "a_dup api [] c")
  then show ?thesis
    by (simp add: consider_cert_def kept_def certGetCertificateContextProperty_def
        certDuplicateCertificateContext_def *(1) [of h] *(2) [of "_ @ _"] split: outcome.splits)
qed

lemma store_lists_enum:
  assumes "store_lists api store (cs @ ds)"
  shows "a_enum api h store (last (0 # cs)) =
    (case ds of [] \<Rightarrow> (0, Some (Errno CRYPT_E_NOT_FOUND)) | d # _ \<Rightarrow> (d, None))"
proof -
  let ?l = "last (0 # cs)" and ?b = "butlast (0 # cs)"
  have eq: "0 # cs @ ds = ?b @ ?l # ds"
    by (metis append_Cons append_Nil append.assoc append_butlast_last_id list.distinct(1))
  have "?l \<in> set (0 # cs @ ds)" by (simp only: eq) simp
  with assms have "a_enum api h store ?l =
      (case successor ?l (?b @ ?l # ds) of Some c \<Rightarrow> (c, None) | None \<Rightarrow> (0, Some (Errno CRYPT_E_NOT_FOUND)))"
    by (simp only: store_lists_def eq)
  moreover have "distinct (?b @ ?l # ds)" using assms by (simp only: store_lists_def eq)
  ultimately show ?thesis
    using successor_append [of ?b ?l] successor_last [of ?b ?l]
    by (cases ds) (simp_all del: last.simps butlast.simps)
qed

lemma enum_loop_lists:
  assumes "steady api" "store_lists api store (cs @ ds)"
  shows "\<exists>h'. enum_loop api store h (last (0 # cs)) certs = Some (h', Ret (certs @ List.map_filter (kept api) ds))"
  using assms(2)
proof (induction ds arbitrary: cs h certs)
  case Nil
  with store_lists_enum [OF Nil, of h] show ?case
    by (subst enum_loop.simps) (simp add: List.map_filter_def del: last.simps)
next
  case (Cons d ds)
  let ?h1 = "h @ [CertEnumCertificatesInStore store (last (0 # cs))]"
  obtain h2 where cc: "consider_cert api ?h1 d = (h2, kept api d)"
    using consider_cert_kept [OF assms(1), of ?h1 d] by (cases "consider_cert api ?h1 d") simp
  have nz: "d \<noteq> 0" using Cons.prems by (simp add: store_lists_def)
  let ?certs = "certs @ (case kept api d of None \<Rightarrow> [] | Some x \<Rightarrow> [x])"
  obtain h' where "enum_loop api store h2 d ?certs = Some (h', Ret (?certs @ List.map_filter (kept api) ds))"
    using Cons.IH [of "cs @ [d]" h2 ?certs] Cons.prems by auto
  with store_lists_enum [OF Cons.prems, of h] cc nz show ?case
    by (subst enum_loop.simps) (auto simp: List.map_filter_def Let_def simp del: last.simps split: option.splits)
qed

text \<open>
  Property C30. Loading the user's certificates terminates on every store, opens and closes it, and
  yields in store order the certificates that have a private key, parse, and can be duplicated.
\<close>

theorem LoadUserCerts_complete:
  assumes "a_openStore api h = Ret store" and "store_lists api store cs" and "steady api"
  shows "\<exists>h'. LoadUserCerts api h = Some (h' @ [CertCloseStore store], Ret (List.map_filter (kept api) cs))"
  using enum_loop_lists [of api store "[]" cs "h @ [CertOpenStore]" "[]"] assms
  by (auto simp: LoadUserCerts_def)

theorem LoadUserCerts_complete_witness:
  "\<exists>h'. LoadUserCerts (capi_demo True) [] = Some (h' @ [CertCloseStore 5], Ret [\<lparr>certContext = 11, x509 = demo_x509\<rparr>])"
  using LoadUserCerts_complete [of "capi_demo True" "[]" 5 "[11, 12]"]
  by (simp add: capi_demo_def store_lists_def steady_def kept_def List.map_filter_def)

text \<open>
  When the enumeration fails half-way, the certificates duplicated before the failure
  are neither returned nor freed: each such call leaks a reference.
\<close>

theorem LoadUserCerts_leaks:
  "\<exists>h'. LoadUserCerts (capi_demo False) [] = Some (h', Fail (Errno 1235)) \<and> refs h' 11 = 1"
proof -
  have "consider_cert (capi_demo False) h 11 =
      (h @ [CertGetCertificateContextProperty 11 CERT_KEY_SPEC_PROP_ID, CertDuplicateCertificateContext 11 0],
       Some \<lparr>certContext = 11, x509 = demo_x509\<rparr>)" for h
    by (simp add: consider_cert_def certGetCertificateContextProperty_def certDuplicateCertificateContext_def capi_demo_def)
  moreover have "a_enum (capi_demo False) h 5 0 = (11, None)" "a_enum (capi_demo False) h 5 11 = (0, Some (Errno 1235))"
    "a_openStore (capi_demo False) h = Ret 5" for h
    by (simp_all add: capi_demo_def)
  ultimately show ?thesis
    by (simp add: LoadUserCerts_def enum_loop.simps CRYPT_E_NOT_FOUND_def refs_def Let_def)
qed

end
