(* ===== verification/Go_ASN1.thy ===== *)
theory Go_ASN1
  imports KB_Prelude
begin

section \<open>\<^verbatim>\<open>encoding/asn1\<close>: reading an ECDSA signature\<close>

text \<open>
  \<^verbatim>\<open>sshagent/ecdsa.go\<close> reads the signature of the card with \<^verbatim>\<open>asn1.Unmarshal\<close> into a structure of two
  \<^verbatim>\<open>*big.Int\<close>. This is the part of the standard library's parser that such a structure exercises:
  identifier and length octets, the checks on them, and integers. The texts of errors are shortened.
  The main lemma, \<open>asn1_Unmarshal_iff\<close>, says that exactly the DER encodings are read.
\<close>

subsection \<open>Identifier and length octets\<close>

record tagAndLength =
  tl_class :: nat
  tl_tag :: nat
  tl_length :: nat
  tl_isCompound :: bool

definition asn1_syntax :: "string \<Rightarrow> go_error" where
  "asn1_syntax m = Errorf (''asn1: syntax error: '' @ m)"

definition asn1_structure :: "string \<Rightarrow> go_error" where
  "asn1_structure m = Errorf (''asn1: structure error: '' @ m)"

text \<open>A tag number of 31 or more, seven bits per byte; \<open>shifted\<close> counts the bytes.\<close>

fun parseBase128Int :: "nat \<Rightarrow> nat \<Rightarrow> bytes \<Rightarrow> go_error + nat \<times> bytes" where
  "parseBase128Int shifted ret [] = Inl (asn1_syntax ''truncated base 128 integer'')"
| "parseBase128Int shifted ret (b # bs) =
     (if shifted = 5 then Inl (asn1_structure ''base 128 integer too large'')
      else if shifted = 0 \<and> b = 0x80 then Inl (asn1_syntax ''integer is not minimally encoded'')
      else let ret' = ret * 128 + unat (b AND 0x7f) in
        if b AND 0x80 = 0 then
          (if 2 ^ 31 \<le> ret' then Inl (asn1_structure ''base 128 integer too large'') else Inr (ret', bs))
        else parseBase128Int (shifted + 1) ret' bs)"

text \<open>The loop over the octets of a long length.\<close>

fun parse_length :: "nat \<Rightarrow> nat \<Rightarrow> bytes \<Rightarrow> go_error + nat \<times> bytes" where
  "parse_length 0 len bs = Inr (len, bs)"
| "parse_length (Suc k) len [] = Inl (asn1_syntax ''truncated tag or length'')"
| "parse_length (Suc k) len (b # bs) =
     (if 2 ^ 23 \<le> len then Inl (asn1_structure ''length too large'')
      else if len * 256 + unat b = 0 then Inl (asn1_structure ''superfluous leading zeros in length'')
      else parse_length k (len * 256 + unat b) bs)"

definition parse_tag :: "byte \<Rightarrow> bytes \<Rightarrow> go_error + nat \<times> bytes" where
  "parse_tag b bs =
     (if unat (b AND 0x1f) \<noteq> 0x1f then Inr (unat (b AND 0x1f), bs)
      else case parseBase128Int 0 0 bs of
        Inl e \<Rightarrow> Inl e
      | Inr (n, rest) \<Rightarrow> if n < 0x1f then Inl (asn1_syntax ''non-minimal tag'') else Inr (n, rest))"

definition parse_len :: "bytes \<Rightarrow> go_error + nat \<times> bytes" where
  "parse_len bs =
     (case bs of
        [] \<Rightarrow> Inl (asn1_syntax ''truncated tag or length'')
      | b # rest \<Rightarrow>
          (if b AND 0x80 = 0 then Inr (unat (b AND 0x7f), rest)
           else if unat (b AND 0x7f) = 0 then Inl (asn1_syntax ''indefinite length found (not DER)'')
           else case parse_length (unat (b AND 0x7f)) 0 rest of
             Inl e \<Rightarrow> Inl e
           | Inr (n, rest') \<Rightarrow> if n < 0x80 then Inl (asn1_structure ''non-minimal length'') else Inr (n, rest')))"

definition parseTagAndLength :: "bytes \<Rightarrow> go_error + tagAndLength \<times> bytes" where
  "parseTagAndLength bs =
     (case bs of
        [] \<Rightarrow> Inl (Errorf ''asn1: internal error in parseTagAndLength'')
      | b # bs1 \<Rightarrow>
          (case parse_tag b bs1 of
             Inl e \<Rightarrow> Inl e
           | Inr (tg, bs2) \<Rightarrow>
               (case parse_len bs2 of
                  Inl e \<Rightarrow> Inl e
                | Inr (n, bs3) \<Rightarrow>
                    Inr (\<lparr>tl_class = unat (drop_bit 6 b), tl_tag = tg, tl_length = n, tl_isCompound = (b AND 0x20 = 0x20)\<rparr>, bs3))))"

subsection \<open>Fields\<close>

text \<open>\<^verbatim>\<open>parseField\<close> up to the contents: the octets of the element and what follows it.\<close>

definition parseField :: "nat \<Rightarrow> bool \<Rightarrow> bytes \<Rightarrow> go_error + bytes \<times> bytes" where
  "parseField expectedTag compoundType bs =
     (if bs = [] then Inl (asn1_syntax ''sequence truncated'')
      else case parseTagAndLength bs of
        Inl e \<Rightarrow> Inl e
      | Inr (t, rest) \<Rightarrow>
          (if tl_class t \<noteq> 0 \<or> tl_tag t \<noteq> expectedTag \<or> tl_isCompound t \<noteq> compoundType
           then Inl (asn1_structure ''tags do not match'')
           else if length rest < tl_length t then Inl (asn1_syntax ''data truncated'')
           else Inr (take (tl_length t) rest, drop (tl_length t) rest)))"

definition checkInteger :: "bytes \<Rightarrow> go_error option" where
  "checkInteger bs =
     (case bs of
        [] \<Rightarrow> Some (asn1_structure ''empty integer'')
      | [b] \<Rightarrow> None
      | b0 # b1 # _ \<Rightarrow>
          (if b0 = 0 \<and> b1 AND 0x80 = 0 \<or> b0 = 0xff \<and> b1 AND 0x80 = 0x80
           then Some (asn1_structure ''integer not minimally-encoded'') else None))"

text \<open>\<^verbatim>\<open>big.Int.SetBytes\<close> reads big-endian.\<close>

fun be_acc :: "nat \<Rightarrow> bytes \<Rightarrow> nat" where
  "be_acc n [] = n"
| "be_acc n (b # bs) = be_acc (n * 256 + unat b) bs"

definition parseBigInt :: "bytes \<Rightarrow> go_error + int" where
  "parseBigInt bs =
     (case checkInteger bs of
        Some e \<Rightarrow> Inl e
      | None \<Rightarrow>
          (if bs \<noteq> [] \<and> bs ! 0 AND 0x80 = 0x80 then Inr (- (int (be_acc 0 (map NOT bs)) + 1))
           else Inr (int (be_acc 0 bs))))"

definition parse_int :: "bytes \<Rightarrow> go_error + int \<times> bytes" where
  "parse_int bs =
     (case parseField 2 False bs of
        Inl e \<Rightarrow> Inl e
      | Inr (inner, rest) \<Rightarrow> (case parseBigInt inner of Inl e \<Rightarrow> Inl e | Inr i \<Rightarrow> Inr (i, rest)))"

text \<open>
  \<^verbatim>\<open>asn1.Unmarshal(b, &struct{R, S *big.Int}{})\<close>. Bytes after the two integers, inside or after the
  sequence, are allowed; the latter are returned to the caller, who ignores them.
\<close>

definition asn1_Unmarshal :: "bytes \<Rightarrow> go_error + (int \<times> int) \<times> bytes" where
  "asn1_Unmarshal bs =
     (case parseField 16 True bs of
        Inl e \<Rightarrow> Inl e
      | Inr (inner, rest) \<Rightarrow>
          (case parse_int inner of
             Inl e \<Rightarrow> Inl e
           | Inr (r, inner1) \<Rightarrow>
               (case parse_int inner1 of Inl e \<Rightarrow> Inl e | Inr (s, inner2) \<Rightarrow> Inr ((r, s), rest))))"

subsection \<open>The encoding that the standard defines\<close>

text \<open>
  DER (X.690): an integer in the fewest octets of two's complement, a length in one octet below 128
  and else in the fewest octets after one that counts them.
\<close>

function int_bytes :: "int \<Rightarrow> bytes" where
  "int_bytes i = (if - 128 \<le> i \<and> i < 128 then [word_of_int i] else int_bytes (i div 256) @ [word_of_int i])"
  by auto
termination
  by (relation "measure (\<lambda>i. nat (if 0 \<le> i then i else - i - 1))") auto

fun nat_bytes :: "nat \<Rightarrow> bytes" where
  "nat_bytes n = (if n < 256 then [word_of_nat n] else nat_bytes (n div 256) @ [word_of_nat n])"

definition der_length :: "nat \<Rightarrow> bytes" where
  "der_length n = (if n < 128 then [word_of_nat n] else word_of_nat (128 + length (nat_bytes n)) # nat_bytes n)"

definition der :: "byte \<Rightarrow> bytes \<Rightarrow> bytes" where
  "der tg body = tg # der_length (length body) @ body"

definition der_signature :: "int \<Rightarrow> int \<Rightarrow> bytes \<Rightarrow> bytes" where
  "der_signature r s extra = der 0x30 (der 0x02 (int_bytes r) @ der 0x02 (int_bytes s) @ extra)"

declare int_bytes.simps [simp del] nat_bytes.simps [simp del]

subsection \<open>Bytes\<close>

lemma byte_bit: "bit (b :: byte) n \<longleftrightarrow> odd (unat b div 2 ^ n)"
proof -
  have "bit (unat b) n = bit b n" by (simp add: bit_unsigned_iff)
  then show ?thesis by (simp add: bit_iff_odd)
qed

lemma byte_and_one: "n < 8 \<Longrightarrow> (b :: byte) AND 2 ^ n = (if bit b n then 2 ^ n else 0)"
  by (rule bit_word_eqI) (auto simp: bit_simps)

lemma byte_high: "(b :: byte) AND 0x80 = 0 \<longleftrightarrow> unat b < 128" "b AND 0x80 = 0x80 \<longleftrightarrow> 128 \<le> unat b"
proof -
  have "odd (unat b div 128) \<longleftrightarrow> 128 \<le> unat b" using byte_unat_less [of b] by presburger
  then have e: "b AND 0x80 = (if 128 \<le> unat b then 0x80 else 0)"
    using byte_and_one [of 7 b] byte_bit [of b 7] by simp
  show "(b :: byte) AND 0x80 = 0 \<longleftrightarrow> unat b < 128" "b AND 0x80 = 0x80 \<longleftrightarrow> 128 \<le> unat b"
    unfolding e by auto
qed

lemma byte_bit5: "(b :: byte) AND 0x20 = 0x20 \<longleftrightarrow> odd (unat b div 32)"
  using byte_and_one [of 5 b] byte_bit [of b 5] by auto

lemma byte_and_mask: "unat ((b :: byte) AND 0x7f) = unat b mod 128" "unat (b AND 0x1f) = unat b mod 32"
proof -
  have "unat (b AND mask n) = unat b mod 2 ^ n" for n
    by (simp flip: take_bit_eq_mask take_bit_eq_mod add: unsigned_take_bit_eq)
  from this [of 7] this [of 5] show "unat (b AND 0x7f) = unat b mod 128" "unat (b AND 0x1f) = unat b mod 32"
    by (simp_all add: mask_eq_exp_minus_1)
qed

lemma byte_top: "unat (drop_bit 6 (b :: byte)) = unat b div 64"
  unfolding unat_drop_bit_eq by (simp add: drop_bit_eq_div)

lemma byte_not: "uint (NOT (b :: byte)) = 255 - uint b"
proof -
  have "uint (NOT b) = (- uint b - 1) mod 256"
    unfolding word_not_def uint_word_of_int by (simp add: not_eq_complement)
  also have "\<dots> = (255 - uint b) mod 256" using mod_add_self2 [of "- uint b - 1" 256] by (simp add: algebra_simps)
  also have "\<dots> = 255 - uint b" by (rule mod_pos_pos_trivial) (use uint_range_size [of b] in \<open>unfold word_size, simp_all, linarith\<close>)
  finally show ?thesis .
qed

subsection \<open>Integers\<close>

text \<open>Big-endian values, read from the left with a signed start.\<close>

fun sacc :: "int \<Rightarrow> bytes \<Rightarrow> int" where
  "sacc i [] = i"
| "sacc i (b # bs) = sacc (i * 256 + uint b) bs"

lemma sacc_append: "sacc i (bs @ [b]) = sacc i bs * 256 + uint b"
  by (induction i bs rule: sacc.induct) auto

lemma sacc_nat: "int (be_acc n bs) = sacc (int n) bs"
  by (induction n bs rule: be_acc.induct) (auto simp: algebra_simps)

lemma sacc_not: "sacc (- i - 1) (map NOT bs) = - sacc i bs - 1"
proof (induction i bs rule: sacc.induct)
  case (2 i b bs)
  have "(- i - 1) * 256 + uint (NOT b) = - (i * 256 + uint b) - 1" by (simp add: byte_not)
  with 2 show ?case by simp
qed simp

definition int_of :: "bytes \<Rightarrow> int" where
  "int_of bs = sacc (if 128 \<le> unat (hd bs) then - 1 else 0) bs"

lemma parseBigInt_int_of: "parseBigInt bs = (case checkInteger bs of Some e \<Rightarrow> Inl e | None \<Rightarrow> Inr (int_of bs))"
proof (cases bs)
  case (Cons b cs)
  then show ?thesis
    using sacc_not [of "- 1" bs]
    by (simp add: parseBigInt_def int_of_def byte_high sacc_nat split: option.split)
qed (simp add: parseBigInt_def checkInteger_def)

definition minimal :: "bytes \<Rightarrow> bool" where
  "minimal bs \<longleftrightarrow> bs \<noteq> [] \<and> (2 \<le> length bs \<longrightarrow> \<not> (bs ! 0 = 0 \<and> unat (bs ! 1) < 128) \<and> \<not> (bs ! 0 = 0xff \<and> 128 \<le> unat (bs ! 1)))"

lemma checkInteger_iff: "checkInteger bs = None \<longleftrightarrow> minimal bs"
  by (auto simp: checkInteger_def minimal_def byte_high split: list.splits)

lemma int_of_append: "bs \<noteq> [] \<Longrightarrow> int_of (bs @ [b]) = int_of bs * 256 + uint b"
  by (simp add: int_of_def sacc_append)

lemma int_of_single: "int_of [word_of_int i] = i" if "- 128 \<le> i" "i < 128"
proof -
  have "uint (word_of_int i :: byte) = i mod 256" by (simp add: uint_word_of_int)
  moreover have "i mod 256 = (if 0 \<le> i then i else i + 256)" using that by presburger
  ultimately show ?thesis using that by (auto simp: int_of_def unat_eq_nat_uint)
qed

lemma int_bytes_neq [simp]: "int_bytes i \<noteq> []"
  by (subst int_bytes.simps) simp

lemma int_of_int_bytes: "int_of (int_bytes i) = i"
proof (induction i rule: int_bytes.induct)
  case (1 i)
  show ?case
  proof (cases "- 128 \<le> i \<and> i < 128")
    case False
    then show ?thesis
      using 1 by (subst int_bytes.simps) (auto simp: int_of_append uint_word_of_int)
  qed (use int_of_single in \<open>auto simp: int_bytes.simps [of i]\<close>)
qed


lemma minimal_append: "minimal (bs @ [b]) \<Longrightarrow> bs \<noteq> [] \<Longrightarrow> minimal bs"
  by (auto simp: minimal_def nth_append)

lemma minimal_longer: "2 \<le> length bs \<Longrightarrow> minimal bs \<Longrightarrow> minimal (bs @ [b])"
  by (simp add: minimal_def nth_append)

lemma int_bytes_byte [simp]: "- 128 \<le> i \<Longrightarrow> i < 128 \<Longrightarrow> int_bytes i = [word_of_int i]"
  by (subst int_bytes.simps) simp

lemma int_bytes_step: "\<not> (- 128 \<le> i \<and> i < 128) \<Longrightarrow> int_bytes i = int_bytes (i div 256) @ [word_of_int i]"
  by (subst int_bytes.simps) simp

lemma word_of_int_small: "- 128 \<le> j \<Longrightarrow> j < 128 \<Longrightarrow> (word_of_int j :: byte) = 0 \<longleftrightarrow> j = 0"
  "- 128 \<le> j \<Longrightarrow> j < 128 \<Longrightarrow> (word_of_int j :: byte) = 0xff \<longleftrightarrow> j = - 1"
  using int_of_single [of j] int_of_single [of 0] by (auto simp: int_of_def)

lemma unat_word_of_int: "unat (word_of_int i :: byte) = nat (i mod 256)"
  by (simp add: unat_eq_nat_uint uint_word_of_int)

lemma minimal_int_bytes: "minimal (int_bytes i)"
proof (induction i rule: int_bytes.induct)
  case (1 i)
  consider "- 128 \<le> i \<and> i < 128" | "\<not> (- 128 \<le> i \<and> i < 128)" "- 128 \<le> i div 256" "i div 256 < 128"
    | "\<not> (- 128 \<le> i \<and> i < 128)" "\<not> (- 128 \<le> i div 256 \<and> i div 256 < 128)" by blast
  then show ?case
  proof cases
    case 2
    have "i div 256 = 0 \<Longrightarrow> 128 \<le> i mod 256" "i div 256 = - 1 \<Longrightarrow> i mod 256 < 128" using 2(1) by presburger+
    with 2 unat_word_of_int [of i] show ?thesis
      by (auto simp: int_bytes_step [of i] minimal_def word_of_int_small)
  next
    case 3
    have "2 \<le> length (int_bytes (i div 256))" using 3(2) by (subst int_bytes_step) (simp_all add: Suc_le_eq)
    with 1 3(1) show ?thesis by (simp add: int_bytes_step [of i] minimal_longer)
  qed (simp add: minimal_def)
qed

lemma int_bytes_unique: "minimal bs \<Longrightarrow> int_bytes (int_of bs) = bs"
proof (induction bs rule: rev_induct)
  case (snoc b bs)
  show ?case
  proof (cases bs)
    case Nil
    have "- 128 \<le> sint b" "sint b < 128" using sint_greater_eq [of b] sint_less [of b] by simp_all
    then show ?thesis using Nil int_of_single [of "sint b"] by simp
  next
    case (Cons c cs)
    let ?i = "int_of (bs @ [b])" and ?j = "int_of bs"
    have b: "uint b < 256" "0 \<le> uint b" using uint_range_size [of b] by (simp_all add: word_size)
    have i: "?i = ?j * 256 + uint b" by (rule int_of_append) (simp add: Cons)
    then have d: "?i div 256 = ?j" "?i mod 256 = uint b" using b by simp_all
    have ih: "int_bytes ?j = bs" using snoc minimal_append Cons by blast
    have "\<not> (- 128 \<le> ?i \<and> ?i < 128)"
    proof
      assume r: "- 128 \<le> ?i \<and> ?i < 128"
      then consider "?j = 0" "uint b < 128" | "?j = - 1" "128 \<le> uint b" using i b by linarith
      then show False
      proof cases
        case 1
        then have "bs = [0]" using ih by simp
        moreover have "unat b < 128" using 1(2) unfolding uint_nat by linarith
        ultimately show False using snoc.prems by (simp add: minimal_def)
      next
        case 2
        then have "bs = [0xff]" using ih by auto
        moreover have "128 \<le> unat b" using 2(2) unfolding uint_nat by linarith
        ultimately show False using snoc.prems by (simp add: minimal_def)
      qed
    qed
    then have "int_bytes ?i = bs @ [word_of_int ?i]" using int_bytes_step d(1) ih by simp
    moreover have "(word_of_int ?i :: byte) = b" by (rule word_uint_eqI) (simp add: uint_word_of_int d(2))
    ultimately show ?thesis by simp
  qed
qed (simp add: minimal_def)

lemma parseBigInt_iff: "parseBigInt bs = Inr i \<longleftrightarrow> bs = int_bytes i"
proof
  assume "parseBigInt bs = Inr i"
  then show "bs = int_bytes i"
    using int_bytes_unique [of bs] checkInteger_iff [of bs] by (auto simp: parseBigInt_int_of split: option.splits)
next
  assume "bs = int_bytes i"
  then show "parseBigInt bs = Inr i"
    using minimal_int_bytes [of i] int_of_int_bytes [of i] checkInteger_iff [of bs] by (simp add: parseBigInt_int_of)
qed


subsection \<open>Lengths\<close>

lemma be_acc_append: "be_acc n (bs @ [b]) = be_acc n bs * 256 + unat b"
  by (induction n bs rule: be_acc.induct) auto

lemma be_acc_split: "be_acc n bs = n * 256 ^ length bs + be_acc 0 bs"
proof (induction bs arbitrary: n)
  case (Cons b bs)
  have "be_acc n (b # bs) = (n * 256 + unat b) * 256 ^ length bs + be_acc 0 bs" using Cons [of "n * 256 + unat b"] by simp
  also have "\<dots> = n * 256 ^ length (b # bs) + (unat b * 256 ^ length bs + be_acc 0 bs)" by (simp add: algebra_simps)
  also have "unat b * 256 ^ length bs + be_acc 0 bs = be_acc 0 (b # bs)" using Cons [of "unat b"] by simp
  finally show ?case .
qed simp

lemma nat_bytes_byte [simp]: "n < 256 \<Longrightarrow> nat_bytes n = [word_of_nat n]"
  by (subst nat_bytes.simps) simp

lemma nat_bytes_step: "256 \<le> n \<Longrightarrow> nat_bytes n = nat_bytes (n div 256) @ [word_of_nat n]"
  by (subst nat_bytes.simps) simp

lemma nat_bytes_neq [simp]: "nat_bytes n \<noteq> []"
  by (subst nat_bytes.simps) simp

lemma unat_word_of_nat: "unat (word_of_nat n :: byte) = n mod 256"
  by (simp add: unat_of_nat)

lemma nat_bytes_acc: "be_acc 0 (nat_bytes n) = n"
  by (induction n rule: nat_bytes.induct) (subst nat_bytes.simps, auto simp: be_acc_append unat_word_of_nat)

lemma nat_bytes_hd: "0 < n \<Longrightarrow> hd (nat_bytes n) \<noteq> 0"
proof (induction n rule: nat_bytes.induct)
  case (1 n)
  show ?case
  proof (cases "n < 256")
    case True
    then have "unat (word_of_nat n :: byte) \<noteq> 0" using 1(2) by (simp add: unat_word_of_nat)
    with True show ?thesis by auto
  qed (use 1 in \<open>simp add: nat_bytes_step\<close>)
qed

lemma nat_bytes_unique: "bs \<noteq> [] \<Longrightarrow> hd bs \<noteq> 0 \<Longrightarrow> nat_bytes (be_acc 0 bs) = bs"
proof (induction bs rule: rev_induct)
  case (snoc b bs)
  show ?case
  proof (cases "bs = []")
    case True
    then show ?thesis using byte_unat_less [of b] by simp
  next
    case False
    then have ih: "nat_bytes (be_acc 0 bs) = bs" "hd bs \<noteq> 0" using snoc by simp_all
    have "be_acc 0 bs \<noteq> 0"
    proof
      assume "be_acc 0 bs = 0"
      with ih(1) have "bs = [0]" by simp
      with ih(2) show False by simp
    qed
    then have "256 \<le> be_acc 0 (bs @ [b])" by (simp add: be_acc_append)
    moreover have "be_acc 0 (bs @ [b]) div 256 = be_acc 0 bs" "be_acc 0 (bs @ [b]) mod 256 = unat b"
      using byte_unat_less [of b] by (simp_all add: be_acc_append)
    moreover have "(word_of_nat (be_acc 0 (bs @ [b])) :: byte) = b"
      by (rule word_unat_eq_iff [THEN iffD2]) (simp add: unat_word_of_nat calculation(3))
    ultimately show ?thesis using nat_bytes_step ih by simp
  qed
qed simp

lemma nat_bytes_length: "n < 256 ^ Suc k \<Longrightarrow> length (nat_bytes n) \<le> Suc k"
proof (induction k arbitrary: n)
  case (Suc k)
  show ?case
  proof (cases "n < 256")
    case False
    moreover have "n div 256 < 256 ^ Suc k" using Suc.prems by (simp add: less_mult_imp_div_less)
    ultimately show ?thesis using Suc.IH [of "n div 256"] by (simp add: nat_bytes_step)
  qed simp
qed simp

lemma parse_length_iff:
  "parse_length k acc bs = Inr (n, rest) \<longleftrightarrow>
     (\<exists>ds. length ds = k \<and> bs = ds @ rest \<and> n = be_acc acc ds \<and>
        (0 < k \<longrightarrow> n < 2 ^ 31 \<and> (0 < acc \<or> hd ds \<noteq> 0)))"
proof (induction k acc bs rule: parse_length.induct)
  case (3 k acc b bs)
  let ?a = "acc * 256 + unat b"
  have bound: "n < 2 ^ 31 \<Longrightarrow> n = be_acc ?a ds \<Longrightarrow> acc < 2 ^ 23" for ds
  proof -
    assume n: "n < 2 ^ 31" "n = be_acc ?a ds"
    have "?a \<le> ?a * 256 ^ length ds" by simp
    then have "?a \<le> n" unfolding n(2) be_acc_split [of ?a ds] by (rule trans_le_add1)
    then show "acc < 2 ^ 23" using n(1) by simp
  qed
  have z: "?a = 0 \<longleftrightarrow> acc = 0 \<and> b = 0" by (auto simp: unat_eq_0)
  show ?case
  proof (cases "2 ^ 23 \<le> acc \<or> ?a = 0")
    case True
    then show ?thesis using bound z by (fastforce simp: Cons_eq_append_conv length_Suc_conv)
  next
    case False
    have "?a < 2 ^ 31" using False byte_unat_less [of b] by simp
    with False 3 z show ?thesis by (auto simp: length_Suc_conv)
  qed
qed auto

lemma der_length_long:
  assumes "128 \<le> n" "n < 2 ^ 31"
  obtains k where "1 \<le> k" "k \<le> 4" "k = length (nat_bytes n)" "der_length n = word_of_nat (128 + k) # nat_bytes n"
    "unat (word_of_nat (128 + k) :: byte) = 128 + k"
proof
  show "length (nat_bytes n) \<le> 4" using assms nat_bytes_length [of n 3] by simp
  then show "unat (word_of_nat (128 + length (nat_bytes n)) :: byte) = 128 + length (nat_bytes n)"
    unfolding unat_word_of_nat by simp
qed (use assms in \<open>auto simp: der_length_def Suc_le_eq\<close>)

lemma der_length_short: "unat b < 128 \<Longrightarrow> n < 2 ^ 31 \<Longrightarrow> b # cs = der_length n @ rest \<longleftrightarrow> n = unat b \<and> rest = cs"
proof (cases "n < 128")
  case True
  then have "unat (word_of_nat n :: byte) = n" by (simp add: unat_word_of_nat)
  then show ?thesis using True by (auto simp: der_length_def)
next
  case False
  assume b: "unat b < 128" "n < 2 ^ 31"
  have "128 \<le> n" using False by simp
  from der_length_long [OF this b(2)] obtain k where
    "der_length n = word_of_nat (128 + k) # nat_bytes n" "unat (word_of_nat (128 + k) :: byte) = 128 + k" by blast
  then show ?thesis using False b(1) by auto
qed

lemma parse_len_iff: "parse_len bs = Inr (n, rest) \<longleftrightarrow> n < 2 ^ 31 \<and> bs = der_length n @ rest"
proof (cases bs)
  case Nil
  then show ?thesis by (simp add: parse_len_def der_length_def)
next
  case (Cons b cs)
  show ?thesis
  proof (cases "unat b < 128")
    case True
    then have "parse_len bs = Inr (n, rest) \<longleftrightarrow> n = unat b \<and> rest = cs"
      using Cons by (auto simp: parse_len_def byte_high byte_and_mask)
    with der_length_short [OF True, of n cs rest] True show ?thesis unfolding Cons by auto
  next
    case False
    let ?k = "unat b - 128"
    have k: "unat b mod 128 = ?k" using False byte_unat_less [of b] by (simp add: mod_if)
    have "parse_len bs = Inr (n, rest) \<longleftrightarrow> 0 < ?k \<and> 128 \<le> n \<and> parse_length ?k 0 cs = Inr (n, rest)"
      using Cons False k by (auto simp: parse_len_def byte_high byte_and_mask split: sum.split prod.split)
    also have "\<dots> \<longleftrightarrow> n < 2 ^ 31 \<and> bs = der_length n @ rest"
    proof
      assume "0 < ?k \<and> 128 \<le> n \<and> parse_length ?k 0 cs = Inr (n, rest)"
      then obtain ds where ds: "length ds = ?k" "cs = ds @ rest" "n = be_acc 0 ds" "n < 2 ^ 31" "hd ds \<noteq> 0" "0 < ?k" "128 \<le> n"
        by (auto simp: parse_length_iff)
      then have "nat_bytes n = ds" using nat_bytes_unique [of ds] by force
      moreover have "word_of_nat (128 + length ds) = b" using ds(1,6) by simp
      ultimately show "n < 2 ^ 31 \<and> bs = der_length n @ rest" using Cons ds by (simp add: der_length_def)
    next
      assume r: "n < 2 ^ 31 \<and> bs = der_length n @ rest"
      then have n: "128 \<le> n" using False Cons by (auto simp: der_length_def unat_word_of_nat split: if_splits)
      obtain k where k: "k = length (nat_bytes n)" "der_length n = word_of_nat (128 + k) # nat_bytes n"
        "unat (word_of_nat (128 + k) :: byte) = 128 + k" using der_length_long [OF n] r by metis
      then have b: "?k = length (nat_bytes n)" "cs = nat_bytes n @ rest" using r Cons by auto
      moreover have "0 < length (nat_bytes n)" by simp
      moreover have "hd (nat_bytes n) \<noteq> 0" using n by (intro nat_bytes_hd) simp
      ultimately show "0 < ?k \<and> 128 \<le> n \<and> parse_length ?k 0 cs = Inr (n, rest)"
        using n r b(2) nat_bytes_acc [of n] by (auto simp: parse_length_iff)
    qed
    finally show ?thesis .
  qed
qed

subsection \<open>Elements\<close>

definition id_octet :: "nat \<Rightarrow> bool \<Rightarrow> byte" where
  "id_octet tg cmp = word_of_nat (tg + (if cmp then 32 else 0))"

lemma octet_split:
  assumes "tg < 31"
  shows "(u :: nat) div 64 = 0 \<and> u mod 32 = tg \<and> odd (u div 32) = cmp \<longleftrightarrow> u = tg + (if cmp then 32 else 0)"
proof
  assume a: "u div 64 = 0 \<and> u mod 32 = tg \<and> odd (u div 32) = cmp"
  then have "u < 64" by (simp add: div_eq_0_iff)
  then have "u div 32 = 0 \<or> u div 32 = 1" by linarith
  then have "u div 32 = (if cmp then 1 else 0)" using a by auto
  then show "u = tg + (if cmp then 32 else 0)" using a div_mult_mod_eq [of u 32] by (cases cmp) simp_all
next
  assume "u = tg + (if cmp then 32 else 0)"
  moreover have "(tg + 32) div 32 = 1" using assms by linarith
  ultimately show "u div 64 = 0 \<and> u mod 32 = tg \<and> odd (u div 32) = cmp" using assms by (cases cmp) auto
qed

lemma id_octet_iff:
  assumes "tg < 31"
  shows "unat (drop_bit 6 b) = 0 \<and> unat (b AND 0x1f) = tg \<and> (b AND 0x20 = 0x20) = cmp \<longleftrightarrow> b = id_octet tg cmp"
proof -
  have "unat (id_octet tg cmp) = tg + (if cmp then 32 else 0)"
    using assms unfolding id_octet_def unat_word_of_nat by simp
  then show ?thesis
    unfolding byte_top byte_and_mask byte_bit5 octet_split [OF assms] word_unat_eq_iff [of b "id_octet tg cmp"] by simp
qed

lemma parseField_iff:
  assumes "tg < 31"
  shows "parseField tg cmp bs = Inr (inner, rest) \<longleftrightarrow>
    length inner < 2 ^ 31 \<and> bs = der (id_octet tg cmp) inner @ rest"
proof -
  have "parseField tg cmp bs = Inr (inner, rest) \<longleftrightarrow>
      (\<exists>b cs n tail. bs = b # cs \<and> b = id_octet tg cmp \<and> parse_len cs = Inr (n, tail) \<and> n \<le> length tail \<and>
         inner = take n tail \<and> rest = drop n tail)"
  proof (cases bs)
    case (Cons b cs)
    show ?thesis
    proof (cases "unat (b AND 0x1f) = 0x1f")
      case True
      then have "b \<noteq> id_octet tg cmp" using assms id_octet_iff [OF assms, of b cmp] by auto
      moreover have "parse_tag b cs = Inr (k, ds) \<Longrightarrow> k \<noteq> tg" for k ds
        using True assms by (auto simp: parse_tag_def split: sum.splits prod.splits if_splits)
      ultimately show ?thesis
        by (auto simp: Cons parseField_def parseTagAndLength_def split: sum.splits prod.splits if_splits)
    next
      case False
      show ?thesis
      proof (cases "parse_len cs")
        case (Inr p)
        then show ?thesis
          using False id_octet_iff [OF assms, of b cmp]
          by (cases p) (auto simp: Cons parseField_def parseTagAndLength_def parse_tag_def)
      qed (use False in \<open>simp add: Cons parseField_def parseTagAndLength_def parse_tag_def\<close>)
    qed
  qed (simp add: parseField_def)
  also have "\<dots> \<longleftrightarrow> length inner < 2 ^ 31 \<and> bs = der (id_octet tg cmp) inner @ rest"
  proof
    assume "length inner < 2 ^ 31 \<and> bs = der (id_octet tg cmp) inner @ rest"
    then show "\<exists>b cs n tail. bs = b # cs \<and> b = id_octet tg cmp \<and> parse_len cs = Inr (n, tail) \<and> n \<le> length tail \<and>
        inner = take n tail \<and> rest = drop n tail"
      by (intro exI [of _ "id_octet tg cmp"] exI [of _ "der_length (length inner) @ inner @ rest"] exI [of _ "length inner"]
          exI [of _ "inner @ rest"]) (simp add: der_def parse_len_iff)
  qed (auto simp: der_def parse_len_iff)
  finally show ?thesis .
qed

lemma length_der: "length (der tg body) = Suc (length (der_length (length body)) + length body)"
  by (simp add: der_def)

lemma parse_int_iff: "parse_int bs = Inr (i, rest) \<longleftrightarrow> length (int_bytes i) < 2 ^ 31 \<and> bs = der 0x02 (int_bytes i) @ rest"
proof -
  have "parse_int bs = Inr (i, rest) \<longleftrightarrow> parseField 2 False bs = Inr (int_bytes i, rest)"
    using parseBigInt_iff [of "int_bytes i" i]
    by (auto simp: parse_int_def split: sum.splits prod.splits dest: parseBigInt_iff [THEN iffD1])
  also have "\<dots> \<longleftrightarrow> length (int_bytes i) < 2 ^ 31 \<and> bs = der 0x02 (int_bytes i) @ rest"
    using parseField_iff [of 2 False bs "int_bytes i" rest] by (simp add: id_octet_def)
  finally show ?thesis .
qed

lemma asn1_Unmarshal_iff:
  "asn1_Unmarshal bs = Inr ((r, s), rest) \<longleftrightarrow>
     (\<exists>extra. bs = der_signature r s extra @ rest \<and> length (der 0x02 (int_bytes r) @ der 0x02 (int_bytes s) @ extra) < 2 ^ 31)"
proof -
  have "asn1_Unmarshal bs = Inr ((r, s), rest) \<longleftrightarrow>
      (\<exists>inner inner1 extra. parseField 16 True bs = Inr (inner, rest) \<and> parse_int inner = Inr (r, inner1) \<and> parse_int inner1 = Inr (s, extra))"
    by (auto simp: asn1_Unmarshal_def split: sum.splits prod.splits)
  also have "\<dots> \<longleftrightarrow> (\<exists>inner. (\<exists>extra. inner = der 0x02 (int_bytes r) @ der 0x02 (int_bytes s) @ extra \<and>
      length (int_bytes r) < 2 ^ 31 \<and> length (int_bytes s) < 2 ^ 31) \<and> length inner < 2 ^ 31 \<and> bs = der 0x30 inner @ rest)"
    using parseField_iff [of 16 True bs _ rest] by (simp add: parse_int_iff id_octet_def) blast
  also have "\<dots> \<longleftrightarrow> (\<exists>extra. bs = der_signature r s extra @ rest \<and>
      length (der 0x02 (int_bytes r) @ der 0x02 (int_bytes s) @ extra) < 2 ^ 31)"
    by (auto simp: der_signature_def length_der)
  finally show ?thesis .
qed

text \<open>The octets that hold the signature \<open>(r, s)\<close>: a DER encoding of it, with whatever follows in the sequence or after it.\<close>

definition encodes_signature :: "bytes \<Rightarrow> int \<Rightarrow> int \<Rightarrow> bool" where
  "encodes_signature bs r s \<longleftrightarrow> (\<exists>extra rest. bs = der_signature r s extra @ rest \<and>
     length (der 0x02 (int_bytes r) @ der 0x02 (int_bytes s) @ extra) < 2 ^ 31)"

lemma asn1_Unmarshal_encodes: "(\<exists>rest. asn1_Unmarshal bs = Inr ((r, s), rest)) \<longleftrightarrow> encodes_signature bs r s"
  unfolding encodes_signature_def asn1_Unmarshal_iff by blast

lemma encodes_unique: "encodes_signature bs r s \<Longrightarrow> encodes_signature bs r' s' \<Longrightarrow> r' = r \<and> s' = s"
  by (auto simp flip: asn1_Unmarshal_encodes)

end
