(* ===== verification/Agent_Signers.thy ===== *)
theory Agent_Signers
  imports Capi Go_ASN1
begin

section \<open>Signers and the key-usage filter (\<^verbatim>\<open>sshagent/rsa.go\<close>, \<^verbatim>\<open>ecdsa.go\<close>, \<^verbatim>\<open>eku.go\<close>)\<close>

text \<open>
  A Go interface value is a record of its methods. \<^verbatim>\<open>ssh.PublicKey\<close> is observed through \<^verbatim>\<open>Type\<close> and
  \<^verbatim>\<open>Marshal\<close>; \<^verbatim>\<open>ssh.Signer\<close> through its public key, \<^verbatim>\<open>Sign\<close> and, when the value also implements
  \<^verbatim>\<open>ssh.AlgorithmSigner\<close>, \<^verbatim>\<open>SignWithAlgorithm\<close>. A signature is an option because the code can return a
  nil signature with a nil error. The functions of \<^verbatim>\<open>golang.org/x/crypto/ssh\<close> that the code calls are
  fields of \<open>ssh_api\<close>.
\<close>

record pubkey =
  pub_Type :: string
  pub_Marshal :: bytes

record signature =
  Format :: string
  Blob :: bytes

record signer =
  PublicKey :: pubkey
  signer_Sign :: "hist \<Rightarrow> bytes \<Rightarrow> hist \<times> signature option outcome"
  signer_SignWithAlgorithm :: "(hist \<Rightarrow> bytes \<Rightarrow> string \<Rightarrow> hist \<times> signature option outcome) option"
  signer_type :: string

record ssh_certificate =
  KeyId :: string
  cert_blob :: bytes

datatype authorized_key = PlainKey pubkey | CertificateKey ssh_certificate

record ssh_api =
  capi :: capi_api
  NewPublicKey :: "x509_key \<Rightarrow> go_error + pubkey"
  ssh_Marshal :: "int \<times> int \<Rightarrow> bytes"
  NewCertSigner :: "ssh_certificate \<Rightarrow> signer \<Rightarrow> go_error + signer"
  ParseAuthorizedKey :: "bytes \<Rightarrow> go_error + authorized_key"
  UserHomeDir :: "go_error + string"
  filepath_Join :: "string \<Rightarrow> string \<Rightarrow> string"
  os_Open :: "hist \<Rightarrow> string \<Rightarrow> go_error + (go_error + bytes)"
  checksvr :: bool
  scard_status :: "hist \<Rightarrow> bool \<times> go_error option"
  msgbox :: "hist \<Rightarrow> nat"

text \<open>Names of \<^verbatim>\<open>x/crypto/ssh\<close> that the code refers to.\<close>

definition SigAlgoRSA :: string where "SigAlgoRSA = ''ssh-rsa''"
definition SigAlgoRSASHA2256 :: string where "SigAlgoRSASHA2256 = ''rsa-sha2-256''"
definition SigAlgoRSASHA2512 :: string where "SigAlgoRSASHA2512 = ''rsa-sha2-512''"
definition KeyAlgoRSA :: string where "KeyAlgoRSA = ''ssh-rsa''"
definition KeyAlgoECDSA256 :: string where "KeyAlgoECDSA256 = ''ecdsa-sha2-nistp256''"
definition KeyAlgoECDSA384 :: string where "KeyAlgoECDSA384 = ''ecdsa-sha2-nistp384''"
definition KeyAlgoECDSA521 :: string where "KeyAlgoECDSA521 = ''ecdsa-sha2-nistp521''"

lemmas algo_defs = SigAlgoRSA_def SigAlgoRSASHA2256_def SigAlgoRSASHA2512_def KeyAlgoRSA_def
  KeyAlgoECDSA256_def KeyAlgoECDSA384_def KeyAlgoECDSA521_def

subsection \<open>RSA\<close>

definition rsaSigner_SignWithAlgorithm ::
  "ssh_api \<Rightarrow> bool \<Rightarrow> Certificate \<Rightarrow> hist \<Rightarrow> bytes \<Rightarrow> string \<Rightarrow> hist \<times> signature option outcome" where
  "rsaSigner_SignWithAlgorithm api dis cert h dat algorithm =
     (let choice =
        (if algorithm = [] \<or> algorithm = SigAlgoRSA then Some (SigAlgoRSA, ALG_RSA_SHA1RSA)
         else if algorithm = SigAlgoRSASHA2256 then Some (algorithm, ALG_RSA_SHA256RSA)
         else if algorithm = SigAlgoRSASHA2512 then Some (algorithm, ALG_RSA_SHA512RSA)
         else None)
      in case choice of
        None \<Rightarrow> (h, Fail (Errorf (''ssh: unsupported signature algorithm '' @ algorithm)))
      | Some (algorithm', capiAlg) \<Rightarrow>
          (case Sign (capi api) dis h capiAlg cert dat of
             (h', Fail e) \<Rightarrow> (h', Fail e)
           | (h', Panic m) \<Rightarrow> (h', Panic m)
           | (h', Ret p7) \<Rightarrow>
               if length (Signers p7) < 1 then (h', Ret None)
               else (h', Ret (Some \<lparr>Format = algorithm', Blob = Signers p7 ! 0\<rparr>))))"

definition rsaSigner_Sign :: "ssh_api \<Rightarrow> bool \<Rightarrow> Certificate \<Rightarrow> hist \<Rightarrow> bytes \<Rightarrow> hist \<times> signature option outcome" where
  "rsaSigner_Sign api dis cert h dat = rsaSigner_SignWithAlgorithm api dis cert h dat []"

definition rsaSigner :: "ssh_api \<Rightarrow> bool \<Rightarrow> pubkey \<Rightarrow> Certificate \<Rightarrow> signer" where
  "rsaSigner api dis pub cert = \<lparr>PublicKey = pub,
     signer_Sign = rsaSigner_Sign api dis cert,
     signer_SignWithAlgorithm = Some (rsaSigner_SignWithAlgorithm api dis cert),
     signer_type = ''*sshagent.rsaSigner''\<rparr>"

subsection \<open>ECDSA\<close>

definition ecAlg :: "nat \<Rightarrow> string" where
  "ecAlg bitSize =
     (if bitSize \<le> 256 then ALG_ECDSA_SHA256
      else if bitSize \<le> 384 then ALG_ECDSA_SHA384
      else ALG_ECDSA_SHA512)"

text \<open>The type assertion on the certificate's key panics for any other key.\<close>

definition ecdsaSigner_Sign :: "ssh_api \<Rightarrow> bool \<Rightarrow> pubkey \<Rightarrow> Certificate \<Rightarrow> hist \<Rightarrow> bytes \<Rightarrow> hist \<times> signature option outcome" where
  "ecdsaSigner_Sign api dis pub cert h dat =
     (case x_key (x509 cert) of
        EcdsaPub bitSize pt \<Rightarrow>
          (case Sign (capi api) dis h (ecAlg bitSize) cert dat of
             (h', Fail e) \<Rightarrow> (h', Fail e)
           | (h', Panic m) \<Rightarrow> (h', Panic m)
           | (h', Ret p7) \<Rightarrow>
               if length (Signers p7) < 1 then (h', Ret None)
               else (case asn1_Unmarshal (Signers p7 ! 0) of
                       Inl e \<Rightarrow> (h', Fail e)
                     | Inr (rs, rest) \<Rightarrow> (h', Ret (Some \<lparr>Format = pub_Type pub, Blob = ssh_Marshal api rs\<rparr>))))
      | _ \<Rightarrow> (h, Panic ''interface conversion''))"

definition ecdsaSigner :: "ssh_api \<Rightarrow> bool \<Rightarrow> pubkey \<Rightarrow> Certificate \<Rightarrow> signer" where
  "ecdsaSigner api dis pub cert = \<lparr>PublicKey = pub,
     signer_Sign = ecdsaSigner_Sign api dis pub cert,
     signer_SignWithAlgorithm = None,
     signer_type = ''*sshagent.ecdsaSigner''\<rparr>"

subsection \<open>Extended key usage\<close>

definition oidExtKeyUsageSmartCardLogon :: "nat list" where
  "oidExtKeyUsageSmartCardLogon = [1, 3, 6, 1, 4, 1, 311, 20, 2, 2]"
definition oidExtKeyUsageBitLockerDriveEncryption :: "nat list" where
  "oidExtKeyUsageBitLockerDriveEncryption = [1, 3, 6, 1, 4, 1, 311, 67, 1, 1]"
definition oidExtKeyUsageEncryptingFileSystem :: "nat list" where
  "oidExtKeyUsageEncryptingFileSystem = [1, 3, 6, 1, 4, 1, 311, 10, 3, 4]"

text \<open>\<^verbatim>\<open>x509.ExtKeyUsageAny\<close>, \<^verbatim>\<open>ServerAuth\<close> and \<^verbatim>\<open>ClientAuth\<close> are 0, 1 and 2.\<close>

definition ExtKeyUsageAny :: nat where "ExtKeyUsageAny = 0"
definition ExtKeyUsageServerAuth :: nat where "ExtKeyUsageServerAuth = 1"
definition ExtKeyUsageClientAuth :: nat where "ExtKeyUsageClientAuth = 2"

record eku_flags =
  flagAny :: bool
  flagBitLocker :: bool
  flagAuth :: bool
  flagServerAuth :: bool

definition eku_known :: "nat \<Rightarrow> eku_flags \<Rightarrow> eku_flags" where
  "eku_known u f =
     (if u = ExtKeyUsageAny then f\<lparr>flagAny := True\<rparr>
      else if u = ExtKeyUsageClientAuth then f\<lparr>flagAuth := True\<rparr>
      else if u = ExtKeyUsageServerAuth then f\<lparr>flagServerAuth := True\<rparr>
      else f)"

definition eku_unknown :: "nat list \<Rightarrow> eku_flags \<Rightarrow> eku_flags" where
  "eku_unknown oid f =
     (if oid = oidExtKeyUsageSmartCardLogon then f\<lparr>flagAuth := True\<rparr>
      else if oid = oidExtKeyUsageBitLockerDriveEncryption then f\<lparr>flagBitLocker := True\<rparr>
      else if oid = oidExtKeyUsageEncryptingFileSystem then f\<lparr>flagBitLocker := True\<rparr>
      else f)"

definition FilterCertificateEKU :: "Certificate \<Rightarrow> bool" where
  "FilterCertificateEKU cert =
     (let f0 = \<lparr>flagAny = False, flagBitLocker = False, flagAuth = False, flagServerAuth = False\<rparr>;
          f1 = fold eku_known (x_eku (x509 cert)) f0;
          f = fold eku_unknown (x_unknown_eku (x509 cert)) f1
      in if flagAny f \<or> flagAuth f then True
         else if flagBitLocker f \<or> flagServerAuth f then False
         else True)"

text \<open>An instance of the parameters for the examples.\<close>

definition ssh_demo :: "bool \<Rightarrow> ssh_api" where
  "ssh_demo ok = \<lparr>capi = capi_demo ok,
     NewPublicKey = (\<lambda>k. case k of RsaPub b \<Rightarrow> Inr \<lparr>pub_Type = KeyAlgoRSA, pub_Marshal = b\<rparr>
        | EcdsaPub n b \<Rightarrow> Inr \<lparr>pub_Type = KeyAlgoECDSA256, pub_Marshal = b\<rparr> | OtherPub b \<Rightarrow> Inl (OtherErr 1)),
     ssh_Marshal = (\<lambda>rs. [1, 2]),
     NewCertSigner = (\<lambda>c s. Inr (s\<lparr>PublicKey := \<lparr>pub_Type = ''ssh-rsa-cert-v01@openssh.com'', pub_Marshal = cert_blob c\<rparr>\<rparr>)),
     ParseAuthorizedKey = (\<lambda>b. Inr (CertificateKey \<lparr>KeyId = ''id'', cert_blob = b\<rparr>)),
     UserHomeDir = Inr ''H'', filepath_Join = (\<lambda>a b. a @ [CHR 0x5C] @ b),
     os_Open = (\<lambda>h p. Inl ErrNotExist), checksvr = False, scard_status = (\<lambda>h. (True, None)), msgbox = (\<lambda>h. 1)\<rparr>"

subsection \<open>What signers keep\<close>

text \<open>
  A signer neither duplicates nor frees certificate contexts. This is the contract the agent
  relies on; the code's own signers meet it, and a certificate signer made by
  \<^verbatim>\<open>ssh.NewCertSigner\<close> meets it when the signer it wraps does.
\<close>

locale ref_neutral =
  fixes sgn :: signer
  assumes sign_refs: "refs (fst (signer_Sign sgn h dat)) c = refs h c"
    and alg_refs: "signer_SignWithAlgorithm sgn = Some f \<Longrightarrow> refs (fst (f h dat alg)) c = refs h c"

lemma Sign_refsD: "Sign api dis h alg cert dat = (h', r) \<Longrightarrow> refs h' c = refs h c"
  using Sign_refs [of api dis h alg cert dat c] by simp

lemma rsa_refs: "refs (fst (rsaSigner_SignWithAlgorithm api dis cert h dat alg)) c = refs h c"
  by (auto simp: rsaSigner_SignWithAlgorithm_def Let_def dest: Sign_refsD split: option.split prod.split outcome.split)

lemma ecdsa_refs: "refs (fst (ecdsaSigner_Sign api dis pub cert h dat)) c = refs h c"
  by (auto simp: ecdsaSigner_Sign_def dest: Sign_refsD split: x509_key.split prod.split outcome.split sum.split)

interpretation rsa: ref_neutral "rsaSigner api dis pub cert"
  by unfold_locales (auto simp: rsaSigner_def rsaSigner_Sign_def rsa_refs)

interpretation ecdsa: ref_neutral "ecdsaSigner api dis pub cert"
  by unfold_locales (auto simp: ecdsaSigner_def ecdsa_refs)

lemma ref_neutral_rsa: "ref_neutral (rsaSigner api dis pub cert)" by (rule rsa.ref_neutral_axioms)

lemma ref_neutral_ecdsa: "ref_neutral (ecdsaSigner api dis pub cert)" by (rule ecdsa.ref_neutral_axioms)

subsection \<open>Properties\<close>

lemma eku_known_flags:
  "flagAny (fold eku_known us f) = (flagAny f \<or> ExtKeyUsageAny \<in> set us)"
  "flagAuth (fold eku_known us f) = (flagAuth f \<or> ExtKeyUsageClientAuth \<in> set us)"
  "flagServerAuth (fold eku_known us f) = (flagServerAuth f \<or> ExtKeyUsageServerAuth \<in> set us)"
  "flagBitLocker (fold eku_known us f) = flagBitLocker f"
  by (induction us arbitrary: f)
     (auto simp: eku_known_def ExtKeyUsageAny_def ExtKeyUsageClientAuth_def ExtKeyUsageServerAuth_def)

lemma eku_unknown_flags:
  "flagAny (fold eku_unknown us f) = flagAny f"
  "flagServerAuth (fold eku_unknown us f) = flagServerAuth f"
  "flagAuth (fold eku_unknown us f) = (flagAuth f \<or> oidExtKeyUsageSmartCardLogon \<in> set us)"
  "flagBitLocker (fold eku_unknown us f) = (flagBitLocker f \<or> oidExtKeyUsageBitLockerDriveEncryption \<in> set us \<or>
     oidExtKeyUsageEncryptingFileSystem \<in> set us)"
  by (induction us arbitrary: f)
     (auto simp: eku_unknown_def oidExtKeyUsageSmartCardLogon_def oidExtKeyUsageBitLockerDriveEncryption_def
        oidExtKeyUsageEncryptingFileSystem_def)

text \<open>
  Property C38. The filter as a rule: a certificate is offered if it may be used for anything, for
  client authentication or for smart-card logon; otherwise unless it is for BitLocker, for the
  encrypting file system or for server authentication. The order of the usages does not matter.
\<close>

theorem FilterCertificateEKU_rule:
  "FilterCertificateEKU cert \<longleftrightarrow>
     ExtKeyUsageAny \<in> set (x_eku (x509 cert)) \<or> ExtKeyUsageClientAuth \<in> set (x_eku (x509 cert)) \<or>
     oidExtKeyUsageSmartCardLogon \<in> set (x_unknown_eku (x509 cert)) \<or>
     {oidExtKeyUsageBitLockerDriveEncryption, oidExtKeyUsageEncryptingFileSystem} \<inter> set (x_unknown_eku (x509 cert)) = {} \<and>
     ExtKeyUsageServerAuth \<notin> set (x_eku (x509 cert))"
  by (auto simp: FilterCertificateEKU_def Let_def eku_known_flags eku_unknown_flags)

definition rsa_hash_of :: "string \<Rightarrow> string" where
  "rsa_hash_of fmt = (if fmt = SigAlgoRSASHA2256 then ALG_RSA_SHA256RSA
     else if fmt = SigAlgoRSASHA2512 then ALG_RSA_SHA512RSA else ALG_RSA_SHA1RSA)"

lemma rsa_SignWithAlgorithmD:
  assumes "rsaSigner_SignWithAlgorithm api dis cert h dat algorithm = (h', Ret (Some sig))"
  shows "CryptSignMessage (rsa_hash_of (Format sig)) (certContext cert) dat \<in> set h' \<and>
    Format sig = (if algorithm = [] then SigAlgoRSA else algorithm)"
proof -
  from assms obtain p7 where
    "Sign (capi api) dis h (rsa_hash_of (Format sig)) cert dat = (h', Ret p7)"
    and "Format sig = (if algorithm = [] then SigAlgoRSA else algorithm)"
    by (auto simp: rsaSigner_SignWithAlgorithm_def rsa_hash_of_def Let_def algo_defs
        split: if_splits option.splits prod.splits outcome.splits)
  then show ?thesis using Sign_signs by blast
qed

text \<open>
  An RSA signature is labelled with the algorithm it was made with: whenever the signer
  returns a signature, the CryptoAPI was asked for the hash that the label names, over exactly the
  data to be signed.
\<close>

theorem rsaSigner_label:
  assumes "rsaSigner_SignWithAlgorithm api dis cert h dat algorithm = (h', Ret (Some sig))"
  shows "CryptSignMessage (rsa_hash_of (Format sig)) (certContext cert) dat \<in> set h' \<and>
    (algorithm \<noteq> [] \<longrightarrow> Format sig = algorithm)"
  using rsa_SignWithAlgorithmD [OF assms] by auto

theorem rsaSigner_label_witness:
  "CryptSignMessage ALG_RSA_SHA512RSA 11 [7] \<in> set (fst (rsaSigner_SignWithAlgorithm
     (ssh_demo True) True \<lparr>certContext = 11, x509 = demo_x509\<rparr> [] [7] ''rsa-sha2-512''))"
proof -
  have "\<exists>h'. rsaSigner_SignWithAlgorithm (ssh_demo True) True \<lparr>certContext = 11, x509 = demo_x509\<rparr> [] [7] ''rsa-sha2-512'' =
     (h', Ret (Some \<lparr>Format = ''rsa-sha2-512'', Blob = [42]\<rparr>))"
    by (simp add: rsaSigner_SignWithAlgorithm_def algo_defs ssh_demo_def Sign_def Sign_body_def no_nul_def
       cryptSignMessage_def cryptAcquireCertificatePrivateKey_def capi_demo_def ALG_RSA_SHA512RSA_def Let_def put_at_def)
  then show ?thesis
    using rsaSigner_label [of "ssh_demo True" True "\<lparr>certContext = 11, x509 = demo_x509\<rparr>" "[]" "[7]" "''rsa-sha2-512''"]
    by (auto simp: rsa_hash_of_def algo_defs)
qed

text \<open>
  Property C16. An ECDSA signature of the card is passed on unaltered: when the card has signed, the agent
  answers with exactly the pair of numbers that the digest encodes in DER; a digest that is no DER
  encoding of two integers (a superfluous octet in a number or a length, a wrong tag, a truncation)
  is an error, and never a signature.
\<close>

theorem ecdsaSigner_translates:
  assumes "x_key (x509 cert) = EcdsaPub n pt" and "Sign (capi api) dis h (ecAlg n) cert dat = (h', Ret p7)"
    and "Signers p7 = d # ds"
  shows "(ecdsaSigner_Sign api dis pub cert h dat = (h', Ret (Some sig)) \<longleftrightarrow>
      (\<exists>r s. encodes_signature d r s \<and> sig = \<lparr>Format = pub_Type pub, Blob = ssh_Marshal api (r, s)\<rparr>)) \<and>
    ((\<exists>e. ecdsaSigner_Sign api dis pub cert h dat = (h', Fail e)) \<longleftrightarrow> (\<nexists>r s. encodes_signature d r s))"
  using assms
  by (auto simp: ecdsaSigner_Sign_def simp flip: asn1_Unmarshal_encodes split: sum.split)

definition ecdsa_demo :: ssh_api where
  "ecdsa_demo = (ssh_demo True)\<lparr>capi := (capi_demo True)\<lparr>pkcs7_Parse := \<lambda>b. Ret \<lparr>Signers = [[48, 8, 2, 2, 1, 44, 2, 2, 0, 200]]\<rparr>\<rparr>,
     ssh_Marshal := \<lambda>(r, s). [word_of_int r, word_of_int s]\<rparr>"

theorem ecdsaSigner_translates_witness:
  "\<exists>h'. ecdsaSigner_Sign ecdsa_demo True \<lparr>pub_Type = KeyAlgoECDSA256, pub_Marshal = [4]\<rparr>
     \<lparr>certContext = 11, x509 = demo_x509\<lparr>x_key := EcdsaPub 256 [4]\<rparr>\<rparr> [] [7] =
     (h', Ret (Some \<lparr>Format = KeyAlgoECDSA256, Blob = ssh_Marshal ecdsa_demo (300, 200)\<rparr>))"
proof -
  let ?c = "\<lparr>certContext = 11, x509 = demo_x509\<lparr>x_key := EcdsaPub 256 [4]\<rparr>\<rparr>" and ?d = "[48, 8, 2, 2, 1, 44, 2, 2, 0, 200] :: bytes"
  have "\<exists>h'. Sign (capi ecdsa_demo) True [] (ecAlg 256) ?c [7] = (h', Ret \<lparr>Signers = [?d]\<rparr>)"
    by (simp add: ecdsa_demo_def ssh_demo_def Sign_def Sign_body_def no_nul_def ecAlg_def cryptSignMessage_def
        cryptAcquireCertificatePrivateKey_def capi_demo_def ALG_ECDSA_SHA256_def Let_def put_at_def)
  then obtain h' where s: "Sign (capi ecdsa_demo) True [] (ecAlg 256) ?c [7] = (h', Ret \<lparr>Signers = [?d]\<rparr>)" by blast
  have "int_bytes 300 = [1, 44]" "int_bytes 200 = [0, 200]" by (simp_all add: int_bytes_step)
  then have "encodes_signature ?d 300 200"
    unfolding encodes_signature_def
    by (intro exI [of _ "[]"]) (simp add: der_signature_def der_def der_length_def)
  then show ?thesis
    using ecdsaSigner_translates [OF _ s, of "[4]" ?d "[]" "\<lparr>pub_Type = KeyAlgoECDSA256, pub_Marshal = [4]\<rparr>"
        "\<lparr>Format = KeyAlgoECDSA256, Blob = ssh_Marshal ecdsa_demo (300, 200)\<rparr>"]
    by (intro exI [of _ h']) (simp, blast)
qed

end
