(* ===== verification/Capi_Agent.thy ===== *)
theory Capi_Agent
  imports Agent_Signers
begin

section \<open>The smart-card agent (\<^verbatim>\<open>sshagent/capi_agent.go\<close>, \<^verbatim>\<open>certificate.go\<close>)\<close>

text \<open>
  The agent keeps one key per usable certificate of the store, and a second one where the user has
  an OpenSSH certificate for it. Every key owns one reference to a certificate context. The record
  \<open>capi_world\<close> is the agent's state with the history of system calls; it is extended by the state of
  other agents later, so the operations are stated for every extension. \<open>keys = None\<close> is Go's nil
  slice, which the code tells from an empty one. The mutex makes the operations atomic. An operation
  returns \<^const>\<open>None\<close> when the enumeration of the store does not end.
\<close>

record sshKey =
  key_cert :: Certificate
  key_signer :: signer
  key_comment :: string

record capi_world =
  log :: hist
  keys :: "sshKey list option"

record agent_key =
  ak_Format :: string
  ak_Blob :: bytes
  ak_Comment :: string

subsection \<open>OpenSSH certificates\<close>

definition loadCertFile :: "ssh_api \<Rightarrow> hist \<Rightarrow> string \<Rightarrow> hist \<times> ssh_certificate outcome" where
  "loadCertFile api h filename =
     (case UserHomeDir api of
        Inl e \<Rightarrow> (h, Fail e)
      | Inr home \<Rightarrow>
          (let path = filepath_Join api home filename; h' = h @ [OpenFile path] in
           case os_Open api h path of
             Inl e \<Rightarrow> (h', Fail e)
           | Inr (Inl e) \<Rightarrow> (h', Fail e)
           | Inr (Inr dat) \<Rightarrow>
               (case ParseAuthorizedKey api dat of
                  Inl e \<Rightarrow> (h', Fail e)
                | Inr (CertificateKey cert) \<Rightarrow> (h', Ret cert)
                | Inr (PlainKey pub) \<Rightarrow> (h', Fail (Errorf ''invalid openssh certificate'')))))"

definition cert_filename :: "string \<Rightarrow> string" where
  "cert_filename s = s @ ''-cert.pub''"

text \<open>First the file named after the serial number, then the one named after the key's comment.\<close>

definition find_cert_file :: "ssh_api \<Rightarrow> hist \<Rightarrow> sshKey \<Rightarrow> hist \<times> ssh_certificate outcome" where
  "find_cert_file api h key =
     (case loadCertFile api h (cert_filename (x_serial (x509 (key_cert key)))) of (h1, r) \<Rightarrow>
       (case r of
          Fail e \<Rightarrow> loadCertFile api h1 (cert_filename (key_comment key))
        | _ \<Rightarrow> (h1, r)))"

definition loadSSHCertificate :: "ssh_api \<Rightarrow> hist \<Rightarrow> sshKey \<Rightarrow> hist \<times> sshKey outcome" where
  "loadSSHCertificate api h key =
     (case find_cert_file api h key of
        (h2, Fail e) \<Rightarrow> (h2, Fail e)
      | (h2, Panic m) \<Rightarrow> (h2, Panic m)
      | (h2, Ret cert) \<Rightarrow>
          (case NewCertSigner api cert (key_signer key) of
             Inl e \<Rightarrow> (h2, Fail e)
           | Inr signer \<Rightarrow>
               (case Certificate_Copy (capi api) h2 (key_cert key) of
                  (h3, Ret newX509Cert) \<Rightarrow>
                    (h3, Ret \<lparr>key_cert = newX509Cert, key_signer = signer, key_comment = KeyId cert\<rparr>)
                | (h3, Fail e) \<Rightarrow> (h3, Fail e)
                | (h3, Panic m) \<Rightarrow> (h3, Panic m))))"

subsection \<open>The agent\<close>

text \<open>The loop of \<^verbatim>\<open>close\<close>: its result is the error of the last call only.\<close>

fun free_keys :: "ssh_api \<Rightarrow> hist \<Rightarrow> sshKey list \<Rightarrow> go_error option \<Rightarrow> hist \<times> go_error option" where
  "free_keys api h [] err = (h, err)"
| "free_keys api h (key # ks) err =
     (case Certificate_Free (capi api) h (key_cert key) of (h', err') \<Rightarrow> free_keys api h' ks err')"

definition CAPIAgent_close :: "ssh_api \<Rightarrow> 'a capi_world_scheme \<Rightarrow> 'a capi_world_scheme \<times> go_error option" where
  "CAPIAgent_close api w =
     (case free_keys api (log w) (case keys w of None \<Rightarrow> [] | Some ks \<Rightarrow> ks) None of
        (h, err) \<Rightarrow> (w\<lparr>log := h, keys := None\<rparr>, err))"

definition CAPIAgent_Close :: "ssh_api \<Rightarrow> 'a capi_world_scheme \<Rightarrow> 'a capi_world_scheme \<times> go_error option" where
  "CAPIAgent_Close api w = CAPIAgent_close api w"

text \<open>One certificate in the loop of \<^verbatim>\<open>loadCerts\<close>: the keys it contributes, the calls it makes.\<close>

definition load_one :: "ssh_api \<Rightarrow> bool \<Rightarrow> hist \<Rightarrow> Certificate \<Rightarrow> hist \<times> sshKey list" where
  "load_one api dis h cert =
     (let drop_it = (fst (Certificate_Free (capi api) h cert), []) in
      if \<not> FilterCertificateEKU cert then drop_it
      else case NewPublicKey api (x_key (x509 cert)) of
        Inl e \<Rightarrow> drop_it
      | Inr pub \<Rightarrow>
          (let signer =
             (if pub_Type pub = KeyAlgoRSA then Some (rsaSigner api dis pub cert)
              else if pub_Type pub \<in> {KeyAlgoECDSA256, KeyAlgoECDSA384, KeyAlgoECDSA521}
              then Some (ecdsaSigner api dis pub cert)
              else None)
           in case signer of
             None \<Rightarrow> drop_it
           | Some sg \<Rightarrow>
               (let key = \<lparr>key_cert = cert, key_signer = sg, key_comment = x_common (x509 cert)\<rparr> in
                case loadSSHCertificate api h key of
                  (h', Ret keyWithCert) \<Rightarrow> (h', [key, keyWithCert])
                | (h', _) \<Rightarrow> (h', [key]))))"

fun load_loop :: "ssh_api \<Rightarrow> bool \<Rightarrow> hist \<Rightarrow> Certificate list \<Rightarrow> sshKey list \<Rightarrow> hist \<times> sshKey list" where
  "load_loop api dis h [] ks = (h, ks)"
| "load_loop api dis h (cert # cs) ks =
     (case load_one api dis h cert of (h', new) \<Rightarrow> load_loop api dis h' cs (ks @ new))"

definition loadCerts :: "ssh_api \<Rightarrow> bool \<Rightarrow> 'a capi_world_scheme \<Rightarrow> ('a capi_world_scheme \<times> unit outcome) option" where
  "loadCerts api dis w =
     (case LoadUserCerts (capi api) (log w) of
        None \<Rightarrow> None
      | Some (h, Fail e) \<Rightarrow> Some (w\<lparr>log := h\<rparr>, Fail e)
      | Some (h, Panic m) \<Rightarrow> Some (w\<lparr>log := h\<rparr>, Panic m)
      | Some (h, Ret certs) \<Rightarrow>
          (case load_loop api dis h certs [] of
             (h', ks) \<Rightarrow> Some (w\<lparr>log := h', keys := Some ks\<rparr>, Ret ())))"

definition key_id :: "sshKey \<Rightarrow> agent_key" where
  "key_id k = \<lparr>ak_Format = pub_Type (PublicKey (key_signer k)), ak_Blob = pub_Marshal (PublicKey (key_signer k)),
     ak_Comment = key_comment k\<rparr>"

definition CAPIAgent_List :: "ssh_api \<Rightarrow> bool \<Rightarrow> 'a capi_world_scheme \<Rightarrow> ('a capi_world_scheme \<times> agent_key list outcome) option" where
  "CAPIAgent_List api dis w =
     (let w1 = (if keys w \<noteq> None then fst (CAPIAgent_close api w) else w) in
      case loadCerts api dis w1 of
        None \<Rightarrow> None
      | Some (w2, Fail e) \<Rightarrow> Some (w2, Fail e)
      | Some (w2, Panic m) \<Rightarrow> Some (w2, Panic m)
      | Some (w2, Ret u) \<Rightarrow> Some (w2, Ret (case keys w2 of None \<Rightarrow> [] | Some ks \<Rightarrow> map key_id ks)))"

definition CAPIAgent_signed :: "hist \<Rightarrow> string \<Rightarrow> hist" where
  "CAPIAgent_signed h comment =
     h @ [Notify ''Authenticated'' (''Authentication Success by Certificate <'' @ comment @ ''>'')]"

text \<open>\<^verbatim>\<open>agent.SignatureFlagRsaSha256\<close> and \<^verbatim>\<open>SignatureFlagRsaSha512\<close>, as the agent protocol defines them.\<close>

definition SignatureFlagRsaSha256 :: uint32 where "SignatureFlagRsaSha256 = 2"
definition SignatureFlagRsaSha512 :: uint32 where "SignatureFlagRsaSha512 = 4"

definition MB_OKCANCEL :: nat where "MB_OKCANCEL = 1"
definition IDOK :: nat where "IDOK = 1"

definition check_service :: "ssh_api \<Rightarrow> hist \<Rightarrow> hist" where
  "check_service api h =
     (if checksvr api then
        (let h1 = h @ [CheckSCardSvrStatus] in
         case scard_status api h of (ok, err) \<Rightarrow>
           if err = None \<and> \<not> ok then
             (let h2 = h1 @ [MessageBox ''Warning:'' ''Smart Card Service is stopped! Do you want to restart it?'' MB_OKCANCEL] in
              if msgbox api h1 = IDOK then h2 @ [StartSCardSvr] else h2)
           else h1)
      else h)"

text \<open>Signing with the key that was found, by the flags of the request, and telling the user if it worked.\<close>

definition sign_finish :: "string \<Rightarrow> hist \<times> signature option outcome \<Rightarrow> hist \<times> signature option outcome" where
  "sign_finish comment res =
     (case res of
        (h, Ret sig) \<Rightarrow> (CAPIAgent_signed h comment, Ret sig)
      | (h, r) \<Rightarrow> (h, r))"

definition sign_with_key :: "hist \<Rightarrow> sshKey \<Rightarrow> bytes \<Rightarrow> uint32 \<Rightarrow> hist \<times> signature option outcome" where
  "sign_with_key h k dat flags =
     (if flags = 0 then sign_finish (key_comment k) (signer_Sign (key_signer k) h dat)
      else case signer_SignWithAlgorithm (key_signer k) of
        None \<Rightarrow> (h, Fail (Errorf (''agent: signature does not support non-default signature algorithm: '' @
                   signer_type (key_signer k))))
      | Some signWithAlgorithm \<Rightarrow>
          if flags = SignatureFlagRsaSha256
          then sign_finish (key_comment k) (signWithAlgorithm h dat SigAlgoRSASHA2256)
          else if flags = SignatureFlagRsaSha512
          then sign_finish (key_comment k) (signWithAlgorithm h dat SigAlgoRSASHA2512)
          else (h, Fail (Errorf (''agent: unsupported signature flags: '' @ dec (unat flags)))))"

fun find_key :: "bytes \<Rightarrow> sshKey list \<Rightarrow> sshKey option" where
  "find_key wanted [] = None"
| "find_key wanted (k # ks) =
     (if pub_Marshal (PublicKey (key_signer k)) = wanted then Some k else find_key wanted ks)"

definition CAPIAgent_SignWithFlags ::
  "ssh_api \<Rightarrow> bool \<Rightarrow> 'a capi_world_scheme \<Rightarrow> pubkey \<Rightarrow> bytes \<Rightarrow> uint32 \<Rightarrow> ('a capi_world_scheme \<times> signature option outcome) option" where
  "CAPIAgent_SignWithFlags api dis w key dat flags =
     (let w0 = w\<lparr>log := check_service api (log w)\<rparr> in
      case (if keys w0 = None then loadCerts api dis w0 else Some (w0, Ret ())) of
        None \<Rightarrow> None
      | Some (w1, Fail e) \<Rightarrow> Some (w1, Fail e)
      | Some (w1, Panic m) \<Rightarrow> Some (w1, Panic m)
      | Some (w1, Ret u) \<Rightarrow>
          (case find_key (pub_Marshal key) (case keys w1 of None \<Rightarrow> [] | Some ks \<Rightarrow> ks) of
             None \<Rightarrow> Some (w1, Fail (Errorf ''not found''))
           | Some k \<Rightarrow>
               (case sign_with_key (log w1) k dat flags of (h, r) \<Rightarrow> Some (w1\<lparr>log := h\<rparr>, r))))"

definition CAPIAgent_Sign ::
  "ssh_api \<Rightarrow> bool \<Rightarrow> 'a capi_world_scheme \<Rightarrow> pubkey \<Rightarrow> bytes \<Rightarrow> ('a capi_world_scheme \<times> signature option outcome) option" where
  "CAPIAgent_Sign api dis w key dat = CAPIAgent_SignWithFlags api dis w key dat 0"

text \<open>The operations the agent refuses (\<^verbatim>\<open>Add\<close>, \<^verbatim>\<open>Remove\<close>, \<^verbatim>\<open>RemoveAll\<close>, \<^verbatim>\<open>Lock\<close>, \<^verbatim>\<open>Unlock\<close>, \<^verbatim>\<open>Signers\<close>).\<close>

definition CAPIAgent_refuse :: "'w \<Rightarrow> ('w \<times> 'r outcome) option" where
  "CAPIAgent_refuse w = Some (w, Fail (Errorf ''implement me''))"

definition CAPIAgent_Extension :: "'w \<Rightarrow> string \<Rightarrow> bytes \<Rightarrow> ('w \<times> bytes outcome) option" where
  "CAPIAgent_Extension w extensionType contents = Some (w, Fail ErrExtensionUnsupported)"

subsection \<open>Sequences of calls\<close>

datatype capi_call = CallList | CallSign pubkey bytes uint32 | CallClose

fun capi_step :: "ssh_api \<Rightarrow> bool \<Rightarrow> capi_call \<Rightarrow> 'a capi_world_scheme \<Rightarrow> 'a capi_world_scheme option" where
  "capi_step api dis CallList w = map_option fst (CAPIAgent_List api dis w)"
| "capi_step api dis (CallSign key dat flags) w = map_option fst (CAPIAgent_SignWithFlags api dis w key dat flags)"
| "capi_step api dis CallClose w = Some (fst (CAPIAgent_Close api w))"

fun capi_run :: "ssh_api \<Rightarrow> bool \<Rightarrow> capi_call list \<Rightarrow> 'a capi_world_scheme \<Rightarrow> 'a capi_world_scheme option" where
  "capi_run api dis [] w = Some w"
| "capi_run api dis (c # cs) w =
     (case capi_step api dis c w of None \<Rightarrow> None | Some w' \<Rightarrow> capi_run api dis cs w')"

subsection \<open>The ledger of the agent\<close>

definition keys_of :: "'a capi_world_scheme \<Rightarrow> sshKey list" where
  "keys_of w = (case keys w of None \<Rightarrow> [] | Some ks \<Rightarrow> ks)"

text \<open>References owed to the system beyond those that the agent's keys will give back.\<close>

definition surplus :: "'a capi_world_scheme \<Rightarrow> nat \<Rightarrow> int" where
  "surplus w c = refs (log w) c - held (map key_cert (keys_of w)) c"

definition neutral_keys :: "sshKey list \<Rightarrow> bool" where
  "neutral_keys ks \<longleftrightarrow> (\<forall>k \<in> set ks. ref_neutral (key_signer k))"

text \<open>
  What is documented of the code that is called: duplicating a context returns that context, and the
  signer made by \<^verbatim>\<open>ssh.NewCertSigner\<close> signs through the signer it is given.
\<close>

definition capi_ok :: "ssh_api \<Rightarrow> bool" where
  "capi_ok api \<longleftrightarrow> dup_same (capi api) \<and>
     (\<forall>c s s'. NewCertSigner api c s = Inr s' \<longrightarrow> ref_neutral s \<longrightarrow> ref_neutral s')"

text \<open>The enumeration of the store never breaks off: it ends with \<^verbatim>\<open>CRYPT_E_NOT_FOUND\<close> or with a null context.\<close>

definition enum_ok :: "ssh_api \<Rightarrow> bool" where
  "enum_ok api \<longleftrightarrow> (\<forall>h store prev c e. a_enum (capi api) h store prev = (c, Some e) \<longrightarrow> e = Errno CRYPT_E_NOT_FOUND)"

lemma loadCertFile_refs: "loadCertFile api h f = (h', r) \<Longrightarrow> refs h' c = refs h c"
  by (auto simp: loadCertFile_def refless_def Let_def split: sum.splits authorized_key.splits)

lemma Certificate_Copy_refs:
  assumes "dup_same api" "Certificate_Copy api h s = (h', r)"
  shows "refs h' c = refs h c + (case r of Ret n \<Rightarrow> held [n] c | _ \<Rightarrow> 0)"
proof -
  obtain d e where de: "a_dup api h (certContext s) = (d, e)" by (cases "a_dup api h (certContext s)")
  then have "e = 0 \<Longrightarrow> d = certContext s"
    using assms(1) unfolding dup_same_def by (metis fst_conv snd_conv)
  with de assms(2) show ?thesis
    by (auto simp: Certificate_Copy_def certDuplicateCertificateContext_def split: if_splits)
qed

lemma find_cert_file_refs:
  assumes "find_cert_file api h key = (h', r)"
  shows "refs h' c = refs h c"
proof -
  obtain h1 r1 where 1: "loadCertFile api h (cert_filename (x_serial (x509 (key_cert key)))) = (h1, r1)" by fastforce
  from loadCertFile_refs [OF this, of c] show ?thesis
    using assms loadCertFile_refs [of api h1 "cert_filename (key_comment key)" h' r c] 1
    by (cases r1) (auto simp: find_cert_file_def)
qed

lemma loadSSHCertificate_refs:
  assumes "capi_ok api" "loadSSHCertificate api h key = (h', r)"
  shows "refs h' c = refs h c + (case r of Ret k \<Rightarrow> held [key_cert k] c | _ \<Rightarrow> 0)"
    and "r = Ret k \<Longrightarrow> ref_neutral (key_signer key) \<Longrightarrow> ref_neutral (key_signer k)"
proof -
  obtain h2 r2 where 2: "find_cert_file api h key = (h2, r2)" by fastforce
  note h2 = find_cert_file_refs [OF 2, of c]
  obtain h3 r3 where 3: "Certificate_Copy (capi api) h2 (key_cert key) = (h3, r3)" by fastforce
  have "dup_same (capi api)" using assms(1) by (simp add: capi_ok_def)
  note h3 = Certificate_Copy_refs [OF this 3, of c]
  from assms(2) 2 3 h2 h3 show "refs h' c = refs h c + (case r of Ret k \<Rightarrow> held [key_cert k] c | _ \<Rightarrow> 0)"
    by (auto simp: loadSSHCertificate_def split: outcome.splits sum.splits)
  show "ref_neutral (key_signer k)" if "r = Ret k" "ref_neutral (key_signer key)"
    using that assms 2 3 by (auto simp: loadSSHCertificate_def capi_ok_def split: outcome.splits sum.splits)
qed

lemma load_one_refs:
  assumes "capi_ok api" "load_one api dis h cert = (h', new)"
  shows "refs h' c = refs h c - held [cert] c + held (map key_cert new) c" and "neutral_keys new"
proof -
  show "refs h' c = refs h c - held [cert] c + held (map key_cert new) c"
    using assms(2)
    by (auto simp: load_one_def Certificate_Free_def Let_def
        dest!: loadSSHCertificate_refs(1) [OF assms(1), where c = c]
        split: if_splits sum.splits option.splits prod.splits outcome.splits)
  show "neutral_keys new"
    using assms(2)
    by (auto simp: load_one_def Certificate_Free_def Let_def neutral_keys_def ref_neutral_rsa ref_neutral_ecdsa
        dest!: loadSSHCertificate_refs(2) [OF assms(1)]
        split: if_splits sum.splits option.splits prod.splits outcome.splits)
qed

lemma neutral_keys_append [simp]: "neutral_keys (xs @ ys) \<longleftrightarrow> neutral_keys xs \<and> neutral_keys ys"
  by (auto simp: neutral_keys_def)

lemma neutral_keys_Nil [simp]: "neutral_keys []"
  by (simp add: neutral_keys_def)

lemma load_loop_refs:
  assumes "capi_ok api" "load_loop api dis h cs ks = (h', ks')" "neutral_keys ks"
  shows "refs h' c - held (map key_cert ks') c = refs h c - held cs c - held (map key_cert ks) c \<and> neutral_keys ks'"
  using assms(2,3)
proof (induction cs arbitrary: h ks)
  case (Cons cert cs)
  obtain h1 new where 1: "load_one api dis h cert = (h1, new)" by fastforce
  have "load_loop api dis h1 cs (ks @ new) = (h', ks')" using Cons.prems(1) 1 by simp
  moreover have "neutral_keys (ks @ new)" using Cons.prems(2) load_one_refs(2) [OF assms(1) 1] by simp
  ultimately show ?case
    using Cons.IH [of h1 "ks @ new"] load_one_refs(1) [OF assms(1) 1, of c] by simp
qed simp

lemma free_keys_refs: "refs (fst (free_keys api h ks err)) c = refs h c - held (map key_cert ks) c"
  by (induction api h ks err rule: free_keys.induct) (simp_all add: Certificate_Free_def)

lemma CAPIAgent_close_world:
  "keys (fst (CAPIAgent_close api w)) = None" "surplus (fst (CAPIAgent_close api w)) c = surplus w c"
  using free_keys_refs [of api "log w" "keys_of w" None c]
  by (auto simp: CAPIAgent_close_def surplus_def keys_of_def split: prod.splits option.splits)

text \<open>Loading is only done when the agent holds no keys.\<close>

lemma enum_loop_no_Fail:
  assumes "enum_loop (capi api) store h cert certs = Some y" "enum_ok api"
  shows "\<exists>rs. snd y = Ret rs"
  using assms
proof (induction "capi api" store h cert certs y rule: enum_loop.raw_induct [rotated 1, consumes 1, case_names 1])
  case (1 loop store h cert certs y)
  then show ?case
    by (auto simp: enum_ok_def Let_def split: prod.splits option.splits if_splits)
qed

lemma LoadUserCerts_Fail_exact:
  assumes "LoadUserCerts (capi api) h = Some (h', r)" "enum_ok api" "\<And>rs. r \<noteq> Ret rs"
  shows "refs h' c = refs h c"
  using assms enum_loop_no_Fail [OF _ assms(2)]
  by (fastforce simp: LoadUserCerts_def refless_def split: outcome.splits option.splits prod.splits)

lemma loadCerts_surplus:
  assumes "capi_ok api" "keys w = None" "loadCerts api dis w = Some (w', r)"
  shows "surplus w c \<le> surplus w' c \<and> (r = Ret () \<or> enum_ok api \<longrightarrow> surplus w' c = surplus w c) \<and> neutral_keys (keys_of w')
    \<and> (r \<noteq> Ret () \<longrightarrow> keys w' = None)"
proof -
  have dup: "dup_same (capi api)" using assms(1) by (simp add: capi_ok_def)
  obtain h l where l: "LoadUserCerts (capi api) (log w) = Some (h, l)"
    using assms(3) by (cases "LoadUserCerts (capi api) (log w)") (auto simp: loadCerts_def)
  show ?thesis
  proof (cases l)
    case (Ret certs)
    obtain h' ks where ll: "load_loop api dis h certs [] = (h', ks)" by fastforce
    have w': "w' = w\<lparr>log := h', keys := Some ks\<rparr>" "r = Ret ()" using assms(3) l Ret ll by (simp_all add: loadCerts_def)
    show ?thesis
      using LoadUserCerts_refs [OF l [unfolded Ret] dup, of c] load_loop_refs [OF assms(1) ll, of c] assms(2)
      by (simp add: w' surplus_def keys_of_def)
  qed (use assms(2,3) l LoadUserCerts_refs_mono [OF l dup, of c] LoadUserCerts_Fail_exact [OF l, of c] in
        \<open>auto simp: loadCerts_def surplus_def keys_of_def\<close>)
qed

lemma CAPIAgent_List_surplus:
  assumes "capi_ok api" "CAPIAgent_List api dis w = Some (w', r)"
  shows "surplus w c \<le> surplus w' c \<and> (keys w' \<noteq> None \<or> enum_ok api \<longrightarrow> surplus w' c = surplus w c) \<and> neutral_keys (keys_of w')"
proof -
  define w1 where "w1 = (if keys w \<noteq> None then fst (CAPIAgent_close api w) else w)"
  have 1: "keys w1 = None" "surplus w1 c = surplus w c"
    by (auto simp: w1_def CAPIAgent_close_world)
  obtain r1 where "loadCerts api dis w1 = Some (w', r1)"
    using assms(2) by (auto simp: CAPIAgent_List_def w1_def Let_def split: option.splits outcome.splits)
  from loadCerts_surplus [OF assms(1) 1(1) this, of c] 1(2) show ?thesis by auto
qed

lemma check_service_refs: "refs (check_service api h) c = refs h c"
  using refs_list_refless [of "[CheckSCardSvrStatus, MessageBox t m n, StartSCardSvr]" c for t m n]
    refs_list_refless [of "[CheckSCardSvrStatus, MessageBox t m n]" c for t m n]
  by (simp add: check_service_def Let_def refless_def split: prod.splits)

lemma find_key_Some: "find_key b ks = Some k \<Longrightarrow> k \<in> set ks \<and> pub_Marshal (PublicKey (key_signer k)) = b"
  by (induction ks) (auto split: if_splits)

lemma find_key_None: "find_key b ks = None \<longleftrightarrow> (\<forall>k \<in> set ks. pub_Marshal (PublicKey (key_signer k)) \<noteq> b)"
  by (induction ks) auto

lemma sign_finish_refs: "refs (fst (sign_finish cm res)) c = refs (fst res) c"
  by (simp add: sign_finish_def CAPIAgent_signed_def refless_def split: prod.splits outcome.splits)

context ref_neutral
begin

lemma sign_with_key_refs:
  "key_signer k = sgn \<Longrightarrow> refs (fst (sign_with_key h k dat flags)) c = refs h c"
  by (simp add: sign_with_key_def sign_finish_refs sign_refs alg_refs split: option.split)

end

lemma CAPIAgent_SignWithFlags_surplus:
  assumes "capi_ok api" "neutral_keys (keys_of w)" "CAPIAgent_SignWithFlags api dis w key dat flags = Some (w', r)"
  shows "surplus w c \<le> surplus w' c \<and> neutral_keys (keys_of w') \<and> (keys w' \<noteq> None \<or> enum_ok api \<longrightarrow> surplus w' c = surplus w c)"
proof -
  define w0 where "w0 = w\<lparr>log := check_service api (log w)\<rparr>"
  have 0: "surplus w0 c = surplus w c" "keys_of w0 = keys_of w" "keys w0 = keys w"
    by (simp_all add: w0_def surplus_def keys_of_def check_service_refs)
  note unf = CAPIAgent_SignWithFlags_def Let_def w0_def [symmetric]
  obtain w1 r1 where 1: "(if keys w0 = None then loadCerts api dis w0 else Some (w0, Ret ())) = Some (w1, r1)"
    using assms(3) by (auto simp: unf split: option.splits)
  have s1: "surplus w c \<le> surplus w1 c \<and> (r1 = Ret () \<or> enum_ok api \<longrightarrow> surplus w1 c = surplus w c) \<and> neutral_keys (keys_of w1)
      \<and> (r1 \<noteq> Ret () \<longrightarrow> keys w1 = None)"
  proof (cases "keys w0 = None")
    case True
    with 1 have "loadCerts api dis w0 = Some (w1, r1)" by simp
    from loadCerts_surplus [OF assms(1) True this, of c] 0 show ?thesis by simp
  qed (use 0 1 assms(2) in auto)
  show ?thesis
  proof (cases "\<exists>k. r1 = Ret () \<and> find_key (pub_Marshal key) (keys_of w1) = Some k")
    case False
    then have "w' = w1" using assms(3) 1
      by (auto simp: unf keys_of_def split: outcome.splits option.splits)
    with s1 show ?thesis by auto
  next
    case True
    then obtain k where k: "r1 = Ret ()" "find_key (pub_Marshal key) (keys_of w1) = Some k" by blast
    then have n: "ref_neutral (key_signer k)" using s1 find_key_Some by (auto simp: neutral_keys_def)
    have "w' = w1\<lparr>log := fst (sign_with_key (log w1) k dat flags)\<rparr>"
      using assms(3) 1 k by (auto simp: unf keys_of_def split: prod.splits)
    then have "surplus w' c = surplus w1 c" "keys_of w' = keys_of w1"
      using ref_neutral.sign_with_key_refs [OF n] by (simp_all add: surplus_def keys_of_def)
    with s1 k show ?thesis by simp
  qed
qed

lemma capi_step_surplus:
  assumes "capi_ok api" "neutral_keys (keys_of w)" "capi_step api dis call w = Some w'"
  shows "surplus w c \<le> surplus w' c \<and> neutral_keys (keys_of w') \<and> (enum_ok api \<longrightarrow> surplus w' c = surplus w c)"
proof (cases call)
  case CallList
  with assms(3) obtain r where "CAPIAgent_List api dis w = Some (w', r)" by auto
  from CAPIAgent_List_surplus [OF assms(1) this, of c] show ?thesis by auto
next
  case (CallSign key dat flags)
  with assms(3) obtain r where "CAPIAgent_SignWithFlags api dis w key dat flags = Some (w', r)" by auto
  from CAPIAgent_SignWithFlags_surplus [OF assms(1,2) this, of c] show ?thesis by auto
next
  case CallClose
  then show ?thesis
    using assms(3) CAPIAgent_close_world [of api w] by (auto simp: CAPIAgent_Close_def keys_of_def)
qed

lemma capi_run_surplus:
  assumes "capi_ok api" "neutral_keys (keys_of w)" "capi_run api dis calls w = Some w'"
  shows "surplus w c \<le> surplus w' c \<and> (enum_ok api \<longrightarrow> surplus w' c = surplus w c)"
  using assms(2,3)
proof (induction calls arbitrary: w)
  case (Cons call calls)
  then obtain w1 where 1: "capi_step api dis call w = Some w1" "capi_run api dis calls w1 = Some w'"
    by (auto split: option.splits)
  from capi_step_surplus [OF assms(1) Cons.prems(1) 1(1), of c] Cons.IH [OF _ 1(2)] show ?case by auto
qed simp

subsection \<open>Properties\<close>

definition capi_start :: capi_world where
  "capi_start = \<lparr>log = [], keys = None\<rparr>"

text \<open>
  No use after free: after any sequence of List, Sign and Close calls, the agent still
  owns a reference for every certificate context that one of its keys refers to, one for each key
  that does, so freeing them all is never one free too many.
\<close>

theorem capi_agent_owns_keys:
  assumes "capi_ok api" and "capi_run api dis calls capi_start = Some w"
  shows "held (map key_cert (keys_of w)) c \<le> refs (log w) c"
  using capi_run_surplus [OF assms(1) _ assms(2), of c]
  by (simp add: capi_start_def surplus_def keys_of_def)

text \<open>
  Property C8. No leak: if the enumeration of the store never breaks off, then whatever was called
  before, closing the agent gives back every reference it ever took.
\<close>

theorem capi_agent_balanced:
  assumes "capi_ok api" and "enum_ok api" and "capi_run api dis (calls @ [CallClose]) capi_start = Some w"
  shows "refs (log w) c = 0"
proof -
  have "capi_run api dis (cs @ [CallClose]) v = Some w \<Longrightarrow> keys w = None" for cs v
    by (induction cs arbitrary: v) (auto simp: CAPIAgent_Close_def CAPIAgent_close_world split: option.splits)
  with assms(3) have "keys w = None" by blast
  then show ?thesis
    using capi_run_surplus [OF assms(1) _ assms(3), of c] assms(2)
    by (simp add: capi_start_def surplus_def keys_of_def)
qed

text \<open>
  Property C31. Every key that \<^verbatim>\<open>List\<close> reports can be used: a sign request for it that follows finds a key
  with this blob among those just loaded, without reading the store again.
\<close>

theorem capi_listed_keys_found:
  assumes "CAPIAgent_List api dis w = Some (w', Ret l)" and "ident \<in> set l" and "pub_Marshal key = ak_Blob ident"
    and "\<not> checksvr api"
  shows "\<exists>k \<in> set (keys_of w'). pub_Marshal (PublicKey (key_signer k)) = ak_Blob ident \<and>
    CAPIAgent_SignWithFlags api dis w' key dat flags =
      (case sign_with_key (log w') k dat flags of (h, r) \<Rightarrow> Some (w'\<lparr>log := h\<rparr>, r))"
proof -
  obtain ks where ks: "keys w' = Some ks" and l: "l = map key_id ks"
    using assms(1)
    by (auto simp: CAPIAgent_List_def loadCerts_def Let_def split: option.splits outcome.splits prod.splits)
  then obtain k0 where "k0 \<in> set ks" "pub_Marshal (PublicKey (key_signer k0)) = ak_Blob ident"
    using assms(2) by (auto simp: key_id_def)
  then obtain k where "find_key (ak_Blob ident) ks = Some k"
    by (cases "find_key (ak_Blob ident) ks") (auto simp: find_key_None)
  with ks assms(3,4) find_key_Some [OF this] show ?thesis
    by (auto simp: CAPIAgent_SignWithFlags_def check_service_def keys_of_def intro!: bexI [of _ k])
qed

lemma sign_finish_rsa:
  assumes "sign_finish cm (rsaSigner_SignWithAlgorithm api dis cert h dat alg) = (h', Ret (Some sig))"
  shows "CryptSignMessage (rsa_hash_of (Format sig)) (certContext cert) dat \<in> set h' \<and>
    Format sig = (if alg = [] then SigAlgoRSA else alg)"
proof -
  obtain h1 r1 where 1: "rsaSigner_SignWithAlgorithm api dis cert h dat alg = (h1, r1)" by fastforce
  with assms have "r1 = Ret (Some sig)" "set h1 \<subseteq> set h'"
    by (cases r1; auto simp: sign_finish_def CAPIAgent_signed_def)+
  with rsa_SignWithAlgorithmD [of api dis cert h dat alg h1 sig] 1 show ?thesis by auto
qed

lemmas flag_defs = SignatureFlagRsaSha256_def SignatureFlagRsaSha512_def

text \<open>
  Property C32. The flags of a request decide the hash: with an RSA key, flags 0, 2 and 4 yield a
  signature labelled \<^verbatim>\<open>ssh-rsa\<close>, \<^verbatim>\<open>rsa-sha2-256\<close> and \<^verbatim>\<open>rsa-sha2-512\<close>, made with that hash over the data,
  and every other combination is refused without asking the card.
\<close>

theorem sign_with_key_rsa_flags:
  assumes "key_signer k = rsaSigner api dis pub cert" and "sign_with_key h k dat flags = (h', r)"
  shows "(\<forall>sig. r = Ret (Some sig) \<longrightarrow>
      (flags, Format sig) \<in> {(0, ''ssh-rsa''), (2, ''rsa-sha2-256''), (4, ''rsa-sha2-512'')} \<and>
      CryptSignMessage (rsa_hash_of (Format sig)) (certContext cert) dat \<in> set h') \<and>
    (flags \<notin> {0, 2, 4} \<longrightarrow> h' = h \<and> (\<exists>e. r = Fail e))"
proof -
  note unf = sign_with_key_def assms(1) rsaSigner_def rsaSigner_Sign_def flag_defs
  consider "flags = 0" | "flags = 2" | "flags = 4" | "flags \<notin> {0, 2, 4}" by blast
  then show ?thesis
  proof cases
    case 1
    with assms(2) have "sign_finish (key_comment k) (rsaSigner_SignWithAlgorithm api dis cert h dat []) = (h', r)"
      by (simp add: unf)
    with 1 show ?thesis by (auto simp: algo_defs dest!: sign_finish_rsa)
  next
    case 2
    with assms(2) have "sign_finish (key_comment k) (rsaSigner_SignWithAlgorithm api dis cert h dat SigAlgoRSASHA2256) = (h', r)"
      by (simp add: unf)
    with 2 show ?thesis by (auto simp: algo_defs dest!: sign_finish_rsa)
  next
    case 3
    with assms(2) have "sign_finish (key_comment k) (rsaSigner_SignWithAlgorithm api dis cert h dat SigAlgoRSASHA2512) = (h', r)"
      by (simp add: unf)
    with 3 show ?thesis by (auto simp: algo_defs dest!: sign_finish_rsa)
  next
    case 4
    with assms(2) show ?thesis by (auto simp: unf)
  qed
qed

text \<open>
  A PKCS7 message without signers: the RSA signer returns neither a signature nor an error, and the
  agent reports a successful authentication to the user.
\<close>

lemma sign_with_key_nil_signature:
  assumes "key_signer k = rsaSigner api dis pub cert"
    and "Sign (capi api) dis h ALG_RSA_SHA1RSA cert dat = (h', Ret \<lparr>Signers = []\<rparr>)"
  shows "sign_with_key h k dat 0 = (CAPIAgent_signed h' (key_comment k), Ret None)"
  using assms by (simp add: sign_with_key_def rsaSigner_def rsaSigner_Sign_def rsaSigner_SignWithAlgorithm_def
      sign_finish_def)

subsection \<open>Examples\<close>

lemma capi_ok_demo: "capi_ok (ssh_demo True)"
  by (auto simp: capi_ok_def ssh_demo_def ref_neutral_def)

lemma enum_ok_demo: "enum_ok (ssh_demo True)"
  by (auto simp: enum_ok_def ssh_demo_def capi_demo_def split: if_splits)

lemma demo_load:
  "\<exists>h'. LoadUserCerts (capi_demo True) h = Some (h', Ret [\<lparr>certContext = 11, x509 = demo_x509\<rparr>])"
  using enum_loop_lists [of "capi_demo True" 5 "[]" "[11, 12]" "h @ [CertOpenStore]" "[]"]
  by (auto simp: LoadUserCerts_def capi_demo_def store_lists_def steady_def kept_def List.map_filter_def)

definition demo_key :: sshKey where
  "demo_key = \<lparr>key_cert = \<lparr>certContext = 11, x509 = demo_x509\<rparr>,
     key_signer = rsaSigner (ssh_demo True) True \<lparr>pub_Type = ''ssh-rsa'', pub_Marshal = [1]\<rparr> \<lparr>certContext = 11, x509 = demo_x509\<rparr>,
     key_comment = ''me''\<rparr>"

lemma demo_load_one: "\<exists>h'. load_one (ssh_demo True) True h \<lparr>certContext = 11, x509 = demo_x509\<rparr> = (h', [demo_key])"
  by (simp add: load_one_def FilterCertificateEKU_def eku_known_def ExtKeyUsageAny_def ExtKeyUsageClientAuth_def loadSSHCertificate_def find_cert_file_def loadCertFile_def
      ssh_demo_def demo_x509_def demo_key_def KeyAlgoRSA_def Let_def)

lemma demo_list:
  "\<exists>w. CAPIAgent_List (ssh_demo True) True capi_start = Some (w, Ret [key_id demo_key]) \<and> keys w = Some [demo_key]"
proof -
  obtain h1 where "LoadUserCerts (capi_demo True) [] = Some (h1, Ret [\<lparr>certContext = 11, x509 = demo_x509\<rparr>])"
    using demo_load by blast
  moreover obtain h2 where "load_one (ssh_demo True) True h1 \<lparr>certContext = 11, x509 = demo_x509\<rparr> = (h2, [demo_key])"
    using demo_load_one by blast
  moreover have "capi (ssh_demo True) = capi_demo True" by (simp add: ssh_demo_def)
  ultimately show ?thesis by (simp add: CAPIAgent_List_def loadCerts_def capi_start_def)
qed

theorem capi_agent_owns_keys_witness:
  "\<exists>w. capi_run (ssh_demo True) True [CallList] capi_start = Some w \<and> 1 \<le> refs (log w) 11"
proof -
  obtain w where w: "capi_run (ssh_demo True) True [CallList] capi_start = Some w" "keys w = Some [demo_key]"
    using demo_list by auto
  from capi_agent_owns_keys [OF capi_ok_demo w(1), of 11] w show ?thesis
    by (simp add: keys_of_def demo_key_def)
qed

theorem capi_agent_balanced_witness:
  "\<exists>w. capi_run (ssh_demo True) True [CallList, CallClose] capi_start = Some w \<and> refs (log w) 11 = 0"
proof -
  obtain w where w: "capi_run (ssh_demo True) True ([CallList] @ [CallClose]) capi_start = Some w"
    using demo_list by auto
  from capi_agent_balanced [OF capi_ok_demo enum_ok_demo w, of 11] w show ?thesis by simp
qed

theorem capi_listed_keys_found_witness:
  "\<exists>w k. CAPIAgent_List (ssh_demo True) True capi_start = Some (w, Ret [key_id demo_key]) \<and> k \<in> set (keys_of w) \<and>
     pub_Marshal (PublicKey (key_signer k)) = [1]"
proof -
  obtain w where w: "CAPIAgent_List (ssh_demo True) True capi_start = Some (w, Ret [key_id demo_key])"
    using demo_list by auto
  have "ak_Blob (key_id demo_key) = [1]" by (simp add: key_id_def demo_key_def rsaSigner_def)
  with capi_listed_keys_found [OF w, of "key_id demo_key" "\<lparr>pub_Type = ''ssh-rsa'', pub_Marshal = [1]\<rparr>" "[7]" 0] w
  show ?thesis by (auto simp: ssh_demo_def)
qed

theorem sign_with_key_rsa_flags_witness:
  "\<exists>e. sign_with_key [] demo_key [7] 6 = ([], Fail e)"
proof -
  obtain h' r where hr: "sign_with_key [] demo_key [7] 6 = (h', r)" by fastforce
  have "key_signer demo_key = rsaSigner (ssh_demo True) True \<lparr>pub_Type = ''ssh-rsa'', pub_Marshal = [1]\<rparr>
      \<lparr>certContext = 11, x509 = demo_x509\<rparr>" by (simp add: demo_key_def)
  from sign_with_key_rsa_flags [OF this hr] hr show ?thesis by simp
qed

end
