(* ===== verification/Agents.thy ===== *)
theory Agents
  imports Capi_Agent
begin

section \<open>Composing agents (\<^verbatim>\<open>sshagent/keyring_agent.go\<close>, \<^verbatim>\<open>wrapped_agent.go\<close>, \<^verbatim>\<open>hyperv.go\<close>, \<^verbatim>\<open>server.go\<close>)\<close>

text \<open>
  The interface \<^verbatim>\<open>agent.Agent\<close> of \<^verbatim>\<open>x/crypto\<close> is a record of operations over a world \<open>'w\<close>; an agent
  that also is an \<^verbatim>\<open>agent.ExtendedAgent\<close> has \<^verbatim>\<open>SignWithFlags\<close> and \<^verbatim>\<open>Extension\<close>. An operation gives
  \<^const>\<open>None\<close> when it does not return. The in-memory keyring and the client of a remote agent are
  third-party agents and arguments of the definitions below.
\<close>

type_synonym ('w, 'r) act = "('w \<times> 'r outcome) option"

record added_key =
  add_Comment :: string
  add_PrivateKey :: bytes

record 'w agent =
  ag_List :: "'w \<Rightarrow> ('w, agent_key list) act"
  ag_Sign :: "'w \<Rightarrow> pubkey \<Rightarrow> bytes \<Rightarrow> ('w, signature option) act"
  ag_Add :: "'w \<Rightarrow> added_key \<Rightarrow> ('w, unit) act"
  ag_Remove :: "'w \<Rightarrow> pubkey \<Rightarrow> ('w, unit) act"
  ag_RemoveAll :: "'w \<Rightarrow> ('w, unit) act"
  ag_Lock :: "'w \<Rightarrow> bytes \<Rightarrow> ('w, unit) act"
  ag_Unlock :: "'w \<Rightarrow> bytes \<Rightarrow> ('w, unit) act"
  ag_Signers :: "'w \<Rightarrow> ('w, signer list) act"
  ag_extended :: "(('w \<Rightarrow> pubkey \<Rightarrow> bytes \<Rightarrow> uint32 \<Rightarrow> ('w, signature option) act) \<times>
                   ('w \<Rightarrow> string \<Rightarrow> bytes \<Rightarrow> ('w, bytes) act)) option"

definition and_then :: "('w, 'r) act \<Rightarrow> ('w \<Rightarrow> 'r outcome \<Rightarrow> ('w, 's) act) \<Rightarrow> ('w, 's) act" where
  "and_then m k = (case m of None \<Rightarrow> None | Some (w, r) \<Rightarrow> k w r)"

definition refuse_ext :: "'w \<Rightarrow> string \<Rightarrow> bytes \<Rightarrow> ('w, bytes) act" where
  "refuse_ext w extensionType contents = Some (w, Fail ErrExtensionUnsupported)"

definition CAPIAgent :: "ssh_api \<Rightarrow> bool \<Rightarrow> ('a capi_world_scheme) agent" where
  "CAPIAgent api dis = \<lparr>
     ag_List = CAPIAgent_List api dis,
     ag_Sign = CAPIAgent_Sign api dis,
     ag_Add = (\<lambda>w key. CAPIAgent_refuse w),
     ag_Remove = (\<lambda>w key. CAPIAgent_refuse w),
     ag_RemoveAll = CAPIAgent_refuse,
     ag_Lock = (\<lambda>w p. CAPIAgent_refuse w),
     ag_Unlock = (\<lambda>w p. CAPIAgent_refuse w),
     ag_Signers = CAPIAgent_refuse,
     ag_extended = Some (CAPIAgent_SignWithFlags api dis, CAPIAgent_Extension)\<rparr>"

subsection \<open>The keyring\<close>

text \<open>\<^verbatim>\<open>base64.StdEncoding.EncodeToString\<close>.\<close>

definition b64chars :: string where
  "b64chars = ''ABCDEFGHIJKLMNOPQRSTUVWXYZabcdefghijklmnopqrstuvwxyz0123456789+/''"

definition b64_at :: "nat \<Rightarrow> char" where
  "b64_at n = b64chars ! (n mod 64)"

fun base64 :: "bytes \<Rightarrow> string" where
  "base64 [] = []"
| "base64 [a] = (let n = unat a * 65536 in [b64_at (n div 262144), b64_at (n div 4096), CHR ''='', CHR ''=''])"
| "base64 [a, b] = (let n = unat a * 65536 + unat b * 256 in
     [b64_at (n div 262144), b64_at (n div 4096), b64_at (n div 64), CHR ''=''])"
| "base64 (a # b # c # bs) = (let n = unat a * 65536 + unat b * 256 + unat c in
     [b64_at (n div 262144), b64_at (n div 4096), b64_at (n div 64), b64_at n] @ base64 bs)"

definition notify :: "string \<Rightarrow> string \<Rightarrow> 'a capi_world_scheme \<Rightarrow> 'a capi_world_scheme" where
  "notify title message w = w\<lparr>log := log w @ [Notify title message]\<rparr>"

fun find_comment :: "bytes \<Rightarrow> agent_key list \<Rightarrow> string" where
  "find_comment wanted [] = base64 wanted"
| "find_comment wanted (k # ks) = (if ak_Blob k = wanted then ak_Comment k else find_comment wanted ks)"

definition KeyRingAgent_findKeyComment ::
  "('a capi_world_scheme) agent \<Rightarrow> 'a capi_world_scheme \<Rightarrow> pubkey \<Rightarrow> ('a capi_world_scheme, string) act" where
  "KeyRingAgent_findKeyComment ag w key =
     and_then (ag_List ag w) (\<lambda>w1 r. case r of
        Ret ks \<Rightarrow> Some (w1, Ret (find_comment (pub_Marshal key) ks))
      | Fail e \<Rightarrow> Some (w1, Ret (base64 (pub_Marshal key)))
      | Panic m \<Rightarrow> Some (w1, Panic m))"

text \<open>Running an action and telling the user when it returned no error.\<close>

definition with_notice ::
  "string \<Rightarrow> string \<Rightarrow> ('a capi_world_scheme, 'r) act \<Rightarrow> ('a capi_world_scheme, 'r) act" where
  "with_notice title message m =
     and_then m (\<lambda>w r. case r of Ret x \<Rightarrow> Some (notify title message w, Ret x) | _ \<Rightarrow> Some (w, r))"

definition KeyRingAgent_SignWithFlags ::
  "('a capi_world_scheme) agent \<Rightarrow> 'a capi_world_scheme \<Rightarrow> pubkey \<Rightarrow> bytes \<Rightarrow> uint32 \<Rightarrow> ('a capi_world_scheme, signature option) act" where
  "KeyRingAgent_SignWithFlags ag w key dat flags =
     and_then (KeyRingAgent_findKeyComment ag w key) (\<lambda>w1 c. case c of
        Ret comment \<Rightarrow>
          with_notice ''Authenticated (Keyring)'' (''Authentication Success by Key <'' @ comment @ ''>'')
            (case ag_extended ag of
               Some (signWithFlags, _) \<Rightarrow> signWithFlags w1 key dat flags
             | None \<Rightarrow> Some (w1, Panic ''interface conversion''))
      | Fail e \<Rightarrow> Some (w1, Fail e)
      | Panic m \<Rightarrow> Some (w1, Panic m))"

definition KeyRingAgent_Add ::
  "('a capi_world_scheme) agent \<Rightarrow> 'a capi_world_scheme \<Rightarrow> added_key \<Rightarrow> ('a capi_world_scheme, unit) act" where
  "KeyRingAgent_Add ag w key =
     with_notice ''Key Added'' (''Key <'' @ add_Comment key @ ''> has been added to keyring'') (ag_Add ag w key)"

definition KeyRingAgent_Remove ::
  "('a capi_world_scheme) agent \<Rightarrow> 'a capi_world_scheme \<Rightarrow> pubkey \<Rightarrow> ('a capi_world_scheme, unit) act" where
  "KeyRingAgent_Remove ag w key =
     and_then (KeyRingAgent_findKeyComment ag w key) (\<lambda>w1 c. case c of
        Ret comment \<Rightarrow>
          with_notice ''Key Removed'' (''Key <'' @ comment @ ''> has been removed from keyring'') (ag_Remove ag w1 key)
      | Fail e \<Rightarrow> Some (w1, Fail e)
      | Panic m \<Rightarrow> Some (w1, Panic m))"

definition KeyRingAgent_RemoveAll ::
  "('a capi_world_scheme) agent \<Rightarrow> 'a capi_world_scheme \<Rightarrow> ('a capi_world_scheme, unit) act" where
  "KeyRingAgent_RemoveAll ag w =
     with_notice ''Key Removed'' ''All Keys have been removed from keyring'' (ag_RemoveAll ag w)"

definition KeyRingAgent :: "('a capi_world_scheme) agent \<Rightarrow> ('a capi_world_scheme) agent" where
  "KeyRingAgent ag = \<lparr>
     ag_List = ag_List ag,
     ag_Sign = (\<lambda>w key dat. KeyRingAgent_SignWithFlags ag w key dat 0),
     ag_Add = KeyRingAgent_Add ag,
     ag_Remove = KeyRingAgent_Remove ag,
     ag_RemoveAll = KeyRingAgent_RemoveAll ag,
     ag_Lock = ag_Lock ag,
     ag_Unlock = ag_Unlock ag,
     ag_Signers = ag_Signers ag,
     ag_extended = Some (KeyRingAgent_SignWithFlags ag, refuse_ext)\<rparr>"

subsection \<open>The wrapped agent\<close>

fun WrappedAgent_List :: "'w agent list \<Rightarrow> agent_key list \<Rightarrow> 'w \<Rightarrow> ('w, agent_key list) act" where
  "WrappedAgent_List [] allKeys w = Some (w, Ret allKeys)"
| "WrappedAgent_List (ag # ags) allKeys w =
     and_then (ag_List ag w) (\<lambda>w1 r. case r of
        Ret ks \<Rightarrow> WrappedAgent_List ags (allKeys @ ks) w1
      | Fail e \<Rightarrow> Some (w1, Fail e)
      | Panic m \<Rightarrow> Some (w1, Panic m))"

definition sign_one :: "'w agent \<Rightarrow> 'w \<Rightarrow> pubkey \<Rightarrow> bytes \<Rightarrow> uint32 \<Rightarrow> ('w, signature option) act" where
  "sign_one ag w key dat flags =
     (case ag_extended ag of
        Some (signWithFlags, _) \<Rightarrow> signWithFlags w key dat flags
      | None \<Rightarrow> ag_Sign ag w key dat)"

text \<open>After the loop the code returns \<^verbatim>\<open>nil, firstError\<close>: with no agents at all both are nil.\<close>

fun WrappedAgent_SignWithFlags ::
  "'w agent list \<Rightarrow> go_error option \<Rightarrow> 'w \<Rightarrow> pubkey \<Rightarrow> bytes \<Rightarrow> uint32 \<Rightarrow> ('w, signature option) act" where
  "WrappedAgent_SignWithFlags [] firstError w key dat flags =
     Some (w, case firstError of None \<Rightarrow> Ret None | Some e \<Rightarrow> Fail e)"
| "WrappedAgent_SignWithFlags (ag # ags) firstError w key dat flags =
     and_then (sign_one ag w key dat flags) (\<lambda>w1 r. case r of
        Ret sig \<Rightarrow> Some (w1, Ret sig)
      | Fail err \<Rightarrow> WrappedAgent_SignWithFlags ags (if firstError = None then Some err else firstError) w1 key dat flags
      | Panic m \<Rightarrow> Some (w1, Panic m))"

text \<open>The operations that go to the first agent; an empty list panics.\<close>

definition first_agent :: "'w agent list \<Rightarrow> ('w agent \<Rightarrow> ('w, 'r) act) \<Rightarrow> 'w \<Rightarrow> ('w, 'r) act" where
  "first_agent ags f w = (case ags of [] \<Rightarrow> Some (w, Panic ''index out of range'') | ag # _ \<Rightarrow> f ag)"

definition WrappedAgent :: "'w agent list \<Rightarrow> 'w agent" where
  "WrappedAgent ags = \<lparr>
     ag_List = WrappedAgent_List ags [],
     ag_Sign = (\<lambda>w key dat. WrappedAgent_SignWithFlags ags None w key dat 0),
     ag_Add = (\<lambda>w key. first_agent ags (\<lambda>a. ag_Add a w key) w),
     ag_Remove = (\<lambda>w key. first_agent ags (\<lambda>a. ag_Remove a w key) w),
     ag_RemoveAll = (\<lambda>w. first_agent ags (\<lambda>a. ag_RemoveAll a w) w),
     ag_Lock = (\<lambda>w p. first_agent ags (\<lambda>a. ag_Lock a w p) w),
     ag_Unlock = (\<lambda>w p. first_agent ags (\<lambda>a. ag_Unlock a w p) w),
     ag_Signers = (\<lambda>w. first_agent ags (\<lambda>a. ag_Signers a w) w),
     ag_extended = Some (WrappedAgent_SignWithFlags ags None, refuse_ext)\<rparr>"

definition NewWrappedAgent :: "'w agent \<Rightarrow> 'w agent list \<Rightarrow> 'w agent" where
  "NewWrappedAgent defaultAgent others = WrappedAgent (defaultAgent # others)"

subsection \<open>The Hyper-V agent\<close>

text \<open>
  Each request dials the host (\<open>dial\<close>, \<^verbatim>\<open>utils.ConnectHyperV\<close>), hands it to a client on that
  connection (\<open>client\<close>, \<^verbatim>\<open>agent.NewClient\<close>) and closes the connection on return.
\<close>

definition ConnectHyperV :: "go_error option \<Rightarrow> (hist \<Rightarrow> nat outcome) \<Rightarrow> hist \<Rightarrow> nat outcome" where
  "ConnectHyperV guidErr hvDial h = (case guidErr of Some e \<Rightarrow> Fail e | None \<Rightarrow> hvDial h)"

definition hv_request ::
  "(hist \<Rightarrow> nat outcome) \<Rightarrow> (nat \<Rightarrow> 'a capi_world_scheme \<Rightarrow> ('a capi_world_scheme, 'r) act) \<Rightarrow>
   'a capi_world_scheme \<Rightarrow> ('a capi_world_scheme, 'r) act" where
  "hv_request dial req w =
     (case dial (log w) of
        Fail e \<Rightarrow> Some (w, Fail e)
      | Panic m \<Rightarrow> Some (w, Panic m)
      | Ret c \<Rightarrow>
          and_then (req c (w\<lparr>log := log w @ [HvDial c]\<rparr>))
            (\<lambda>w1 r. Some (w1\<lparr>log := log w1 @ [HvClose c]\<rparr>, r)))"

definition HVAgent ::
  "(hist \<Rightarrow> nat outcome) \<Rightarrow> (nat \<Rightarrow> ('a capi_world_scheme) agent) \<Rightarrow> ('a capi_world_scheme) agent" where
  "HVAgent dial client = \<lparr>
     ag_List = hv_request dial (\<lambda>c. ag_List (client c)),
     ag_Sign = (\<lambda>w key dat. hv_request dial (\<lambda>c v. ag_Sign (client c) v key dat) w),
     ag_Add = (\<lambda>w key. CAPIAgent_refuse w),
     ag_Remove = (\<lambda>w key. CAPIAgent_refuse w),
     ag_RemoveAll = CAPIAgent_refuse,
     ag_Lock = (\<lambda>w p. CAPIAgent_refuse w),
     ag_Unlock = (\<lambda>w p. CAPIAgent_refuse w),
     ag_Signers = CAPIAgent_refuse,
     ag_extended = None\<rparr>"

subsection \<open>The server\<close>

text \<open>
  \<^verbatim>\<open>agent.ServeAgent\<close> is third-party: \<open>serve\<close> is what it does with the agent on a connection. The
  handler closes the connection whatever happens, and prints an error other than \<^verbatim>\<open>io.EOF\<close>.
\<close>

definition SSHAgentHandler ::
  "('w agent \<Rightarrow> 'w \<Rightarrow> 'c \<Rightarrow> 'w \<times> 'c \<times> go_error option) \<Rightarrow> ('c \<Rightarrow> 'c) \<Rightarrow> 'w agent option \<Rightarrow> 'w \<Rightarrow> 'c \<Rightarrow> 'w \<times> 'c \<times> go_error list" where
  "SSHAgentHandler serve close ag w conn =
     (case ag of
        None \<Rightarrow> (w, close conn, [])
      | Some a \<Rightarrow> (case serve a w conn of (w', conn', err) \<Rightarrow>
          (w', close conn', case err of None \<Rightarrow> [] | Some e \<Rightarrow> if e = EOF then [] else [e])))"

subsection \<open>Sequences of requests\<close>

datatype agent_op =
    OpList
  | OpSign pubkey bytes uint32
  | OpAdd added_key
  | OpRemove pubkey
  | OpRemoveAll
  | OpLock bytes
  | OpUnlock bytes
  | OpSigners

definition discard :: "('w, 'r) act \<Rightarrow> 'w option" where
  "discard m = map_option fst m"

fun agent_step :: "'w agent \<Rightarrow> agent_op \<Rightarrow> 'w \<Rightarrow> 'w option" where
  "agent_step ag OpList w = discard (ag_List ag w)"
| "agent_step ag (OpSign key dat flags) w = discard (sign_one ag w key dat flags)"
| "agent_step ag (OpAdd ak) w = discard (ag_Add ag w ak)"
| "agent_step ag (OpRemove key) w = discard (ag_Remove ag w key)"
| "agent_step ag OpRemoveAll w = discard (ag_RemoveAll ag w)"
| "agent_step ag (OpLock p) w = discard (ag_Lock ag w p)"
| "agent_step ag (OpUnlock p) w = discard (ag_Unlock ag w p)"
| "agent_step ag OpSigners w = discard (ag_Signers ag w)"

text \<open>The same with the message of a panic, if the call ended in one.\<close>

definition panic_of :: "('w, 'r) act \<Rightarrow> ('w \<times> string option) option" where
  "panic_of m = map_option (\<lambda>(w, r). (w, case r of Panic msg \<Rightarrow> Some msg | _ \<Rightarrow> None)) m"

fun agent_result :: "'w agent \<Rightarrow> agent_op \<Rightarrow> 'w \<Rightarrow> ('w \<times> string option) option" where
  "agent_result ag OpList w = panic_of (ag_List ag w)"
| "agent_result ag (OpSign key dat flags) w = panic_of (sign_one ag w key dat flags)"
| "agent_result ag (OpAdd ak) w = panic_of (ag_Add ag w ak)"
| "agent_result ag (OpRemove key) w = panic_of (ag_Remove ag w key)"
| "agent_result ag OpRemoveAll w = panic_of (ag_RemoveAll ag w)"
| "agent_result ag (OpLock p) w = panic_of (ag_Lock ag w p)"
| "agent_result ag (OpUnlock p) w = panic_of (ag_Unlock ag w p)"
| "agent_result ag OpSigners w = panic_of (ag_Signers ag w)"

fun agent_run :: "'w agent \<Rightarrow> agent_op list \<Rightarrow> 'w \<Rightarrow> 'w option" where
  "agent_run ag [] w = Some w"
| "agent_run ag (op # ops) w = (case agent_step ag op w of None \<Rightarrow> None | Some w' \<Rightarrow> agent_run ag ops w')"

text \<open>Asking the agents one after the other while all of them fail: the world after it and the errors.\<close>

fun all_fail :: "'w agent list \<Rightarrow> 'w \<Rightarrow> pubkey \<Rightarrow> bytes \<Rightarrow> uint32 \<Rightarrow> ('w \<times> go_error list) option" where
  "all_fail [] w key dat flags = Some (w, [])"
| "all_fail (ag # ags) w key dat flags =
     (case sign_one ag w key dat flags of
        Some (w1, Fail e) \<Rightarrow> map_option (\<lambda>(w2, es). (w2, e # es)) (all_fail ags w1 key dat flags)
      | _ \<Rightarrow> None)"

text \<open>An empty keyring, for the examples.\<close>

definition empty_ring :: "('a capi_world_scheme) agent" where
  "empty_ring = \<lparr>
     ag_List = (\<lambda>w. Some (w, Ret [])),
     ag_Sign = (\<lambda>w key dat. Some (w, Fail (Errorf ''not found''))),
     ag_Add = (\<lambda>w key. Some (w, Ret ())),
     ag_Remove = (\<lambda>w key. Some (w, Fail (Errorf ''key not found''))),
     ag_RemoveAll = (\<lambda>w. Some (w, Ret ())),
     ag_Lock = (\<lambda>w p. Some (w, Ret ())),
     ag_Unlock = (\<lambda>w p. Some (w, Ret ())),
     ag_Signers = (\<lambda>w. Some (w, Ret [])),
     ag_extended = Some (\<lambda>w key dat flags. Some (w, Fail (Errorf ''not found'')), refuse_ext)\<rparr>"

subsection \<open>The contract of an agent\<close>

text \<open>
  An invariant \<open>I\<close> of the world is kept by every operation of the agent. The wrapped agent keeps
  what its agents keep, the keyring agent what its keyring and the notifications keep.
\<close>

definition keeps :: "('w \<Rightarrow> bool) \<Rightarrow> ('w \<Rightarrow> ('w, 'r) act) \<Rightarrow> bool" where
  "keeps I f \<longleftrightarrow> (\<forall>w w' r. I w \<longrightarrow> f w = Some (w', r) \<longrightarrow> I w')"

lemma keepsI: "(\<And>w w' r. I w \<Longrightarrow> f w = Some (w', r) \<Longrightarrow> I w') \<Longrightarrow> keeps I f"
  by (auto simp: keeps_def)

lemma keepsD: "keeps I f \<Longrightarrow> I w \<Longrightarrow> f w = Some (w', r) \<Longrightarrow> I w'"
  by (auto simp: keeps_def)

lemma keeps_discard: "keeps I f \<Longrightarrow> discard (f w) = Some w' \<Longrightarrow> I w \<Longrightarrow> I w'"
  by (auto simp: keeps_def discard_def)

lemma and_then_Some: "and_then m k = Some y \<longleftrightarrow> (\<exists>w r. m = Some (w, r) \<and> k w r = Some y)"
  by (auto simp: and_then_def split: option.splits)

lemma keeps_and_then:
  assumes "keeps I f" "\<And>r. keeps I (\<lambda>w. k w r)"
  shows "keeps I (\<lambda>w. and_then (f w) k)"
  using assms unfolding keeps_def and_then_Some by blast

lemma keeps_return: "(\<And>w. I w \<Longrightarrow> I (g w)) \<Longrightarrow> keeps I (\<lambda>w. Some (g w, r))"
  by (auto simp: keeps_def)

lemma agent_result_step: "agent_result ag op w = Some (w', pan) \<Longrightarrow> agent_step ag op w = Some w'"
  by (cases op) (auto simp: panic_of_def discard_def)

locale agent_keeps =
  fixes ag :: "'w agent" and I :: "'w \<Rightarrow> bool"
  assumes List_keeps: "keeps I (ag_List ag)"
    and Sign_keeps: "keeps I (\<lambda>w. ag_Sign ag w key dat)"
    and Add_keeps: "keeps I (\<lambda>w. ag_Add ag w ak)"
    and Remove_keeps: "keeps I (\<lambda>w. ag_Remove ag w key)"
    and RemoveAll_keeps: "keeps I (ag_RemoveAll ag)"
    and Lock_keeps: "keeps I (\<lambda>w. ag_Lock ag w p)"
    and Unlock_keeps: "keeps I (\<lambda>w. ag_Unlock ag w p)"
    and Signers_keeps: "keeps I (ag_Signers ag)"
    and SignWithFlags_keeps: "ag_extended ag = Some (sf, ext) \<Longrightarrow> keeps I (\<lambda>w. sf w key dat flags)"
    and Extension_keeps: "ag_extended ag = Some (sf, ext) \<Longrightarrow> keeps I (\<lambda>w. ext w t cs)"
begin

lemma sign_one_keeps: "keeps I (\<lambda>w. sign_one ag w key dat flags)"
  using SignWithFlags_keeps [of _ _ key dat flags] Sign_keeps [of key dat]
  by (cases "ag_extended ag") (auto simp: sign_one_def)

lemma step_keeps: "agent_step ag op w = Some w' \<Longrightarrow> I w \<Longrightarrow> I w'"
  by (cases op; simp)
     (erule (1) keeps_discard [OF List_keeps] keeps_discard [OF sign_one_keeps] keeps_discard [OF Add_keeps]
       keeps_discard [OF Remove_keeps] keeps_discard [OF RemoveAll_keeps] keeps_discard [OF Lock_keeps]
       keeps_discard [OF Unlock_keeps] keeps_discard [OF Signers_keeps])+

lemma run_keeps: "agent_run ag ops w = Some w' \<Longrightarrow> I w \<Longrightarrow> I w'"
  by (induction ops arbitrary: w) (auto dest: step_keeps split: option.splits)

end

lemma WrappedAgent_List_keeps:
  assumes "\<And>a. a \<in> set ags \<Longrightarrow> agent_keeps a I"
  shows "keeps I (WrappedAgent_List ags acc)"
  using assms
proof (induction ags arbitrary: acc)
  case (Cons a ags)
  have "keeps I (ag_List a)" using Cons.prems by (simp add: agent_keeps.List_keeps)
  moreover have "keeps I (\<lambda>w. case r of Ret ks \<Rightarrow> WrappedAgent_List ags (acc @ ks) w
      | Fail e \<Rightarrow> Some (w, Fail e) | Panic m \<Rightarrow> Some (w, Panic m))" for r
    using Cons by (cases r) (auto intro: keeps_return)
  ultimately show ?case by (simp add: keeps_and_then)
qed (auto simp: keeps_def)

lemma WrappedAgent_Sign_keeps:
  assumes "\<And>a. a \<in> set ags \<Longrightarrow> agent_keeps a I"
  shows "keeps I (\<lambda>w. WrappedAgent_SignWithFlags ags fe w key dat flags)"
  using assms
proof (induction ags arbitrary: fe)
  case (Cons a ags)
  have "keeps I (\<lambda>w. sign_one a w key dat flags)" using Cons.prems by (simp add: agent_keeps.sign_one_keeps)
  moreover have "keeps I (\<lambda>w. case r of Ret sig \<Rightarrow> Some (w, Ret sig)
      | Fail e \<Rightarrow> WrappedAgent_SignWithFlags ags (if fe = None then Some e else fe) w key dat flags
      | Panic m \<Rightarrow> Some (w, Panic m))" for r
    using Cons by (cases r) (auto intro: keeps_return)
  ultimately show ?case by (simp add: keeps_and_then)
qed (simp add: keeps_return)

lemma first_agent_keeps:
  assumes "\<And>a. a \<in> set ags \<Longrightarrow> keeps I (f a)"
  shows "keeps I (\<lambda>w. first_agent ags (\<lambda>a. f a w) w)"
  using assms by (cases ags) (auto simp: first_agent_def intro: keeps_return)

lemma WrappedAgent_keeps:
  assumes "\<And>a. a \<in> set ags \<Longrightarrow> agent_keeps a I"
  shows "agent_keeps (WrappedAgent ags) I"
proof -
  note facts = agent_keeps.List_keeps agent_keeps.Add_keeps agent_keeps.Remove_keeps agent_keeps.RemoveAll_keeps
    agent_keeps.Lock_keeps agent_keeps.Unlock_keeps agent_keeps.Signers_keeps
  show ?thesis
    by unfold_locales
      (auto simp: WrappedAgent_def refuse_ext_def WrappedAgent_List_keeps WrappedAgent_Sign_keeps assms
        intro!: first_agent_keeps keeps_return intro: facts [OF assms])
qed

lemma with_notice_keeps:
  assumes "keeps I f" "\<And>t m w. I w \<Longrightarrow> I (notify t m w)"
  shows "keeps I (\<lambda>w. with_notice t m (f w))"
  unfolding with_notice_def
  by (rule keeps_and_then [OF assms(1)]) (auto simp: keeps_def assms(2) split: outcome.splits)

lemma findKeyComment_keeps:
  assumes "keeps I (ag_List ag)"
  shows "keeps I (\<lambda>w. KeyRingAgent_findKeyComment ag w key)"
  unfolding KeyRingAgent_findKeyComment_def
  by (rule keeps_and_then [OF assms]) (auto simp: keeps_def split: outcome.splits)

lemma with_comment_keeps:
  assumes "keeps I (ag_List ag)" "\<And>c. keeps I (f c)"
  shows "keeps I (\<lambda>w. and_then (KeyRingAgent_findKeyComment ag w key) (\<lambda>w1 c. case c of
        Ret comment \<Rightarrow> f comment w1 | Fail e \<Rightarrow> Some (w1, Fail e) | Panic m \<Rightarrow> Some (w1, Panic m)))"
proof (rule keeps_and_then [OF findKeyComment_keeps [OF assms(1)]])
  fix r
  show "keeps I (\<lambda>w1. case r of Ret comment \<Rightarrow> f comment w1 | Fail e \<Rightarrow> Some (w1, Fail e) | Panic m \<Rightarrow> Some (w1, Panic m))"
    using assms(2) by (cases r) (auto intro: keeps_return)
qed

lemma KeyRingAgent_keeps:
  assumes "agent_keeps ag I" "\<And>t m w. I w \<Longrightarrow> I (notify t m w)"
  shows "agent_keeps (KeyRingAgent ag) I"
proof -
  note L = agent_keeps.List_keeps [OF assms(1)]
  have ext: "keeps I (\<lambda>w. case ag_extended ag of Some (sf, ext) \<Rightarrow> sf w key dat flags | None \<Rightarrow> Some (w, Panic m))" for key dat flags m
    using agent_keeps.SignWithFlags_keeps [OF assms(1), of _ _ key dat flags]
    by (cases "ag_extended ag") (auto intro: keeps_return)
  have sign: "keeps I (\<lambda>w. KeyRingAgent_SignWithFlags ag w key dat flags)" for key dat flags
    unfolding KeyRingAgent_SignWithFlags_def
    by (intro with_comment_keeps [OF L] with_notice_keeps assms(2) ext)
  have rem: "keeps I (\<lambda>w. KeyRingAgent_Remove ag w key)" for key
    unfolding KeyRingAgent_Remove_def
    by (intro with_comment_keeps [OF L] with_notice_keeps assms(2) agent_keeps.Remove_keeps [OF assms(1)])
  have add: "keeps I (\<lambda>w. KeyRingAgent_Add ag w ak)" for ak
    unfolding KeyRingAgent_Add_def
    by (intro with_notice_keeps assms(2) agent_keeps.Add_keeps [OF assms(1)])
  have remall: "keeps I (\<lambda>w. KeyRingAgent_RemoveAll ag w)"
    unfolding KeyRingAgent_RemoveAll_def
    by (intro with_notice_keeps assms(2) agent_keeps.RemoveAll_keeps [OF assms(1)])
  show ?thesis
    using remall agent_keeps.Lock_keeps [OF assms(1)] agent_keeps.Unlock_keeps [OF assms(1)] agent_keeps.Signers_keeps [OF assms(1)]
    by unfold_locales (auto simp: KeyRingAgent_def refuse_ext_def L sign rem add intro: keeps_return)
qed

lemma hv_request_keeps:
  assumes "\<And>c. keeps I (req c)" "\<And>w c. I w \<Longrightarrow> I (w\<lparr>log := log w @ [HvDial c]\<rparr>)"
    "\<And>w c. I w \<Longrightarrow> I (w\<lparr>log := log w @ [HvClose c]\<rparr>)"
  shows "keeps I (hv_request dial req)"
proof (rule keepsI)
  fix w w' :: "'a capi_world_scheme" and r
  assume "I w" "hv_request dial req w = Some (w', r)"
  then show "I w'"
    using assms(2,3) keepsD [OF assms(1)] by (fastforce simp: hv_request_def and_then_Some split: outcome.splits)
qed

subsection \<open>The ledger survives the composition\<close>

text \<open>
  The invariant of the smart-card agent: it owns a reference for each of its keys, and its keys'
  signers neither take nor give references.
\<close>

definition ledger :: "'a capi_world_scheme \<Rightarrow> bool" where
  "ledger w \<longleftrightarrow> (\<forall>c. 0 \<le> surplus w c) \<and> neutral_keys (keys_of w)"

lemma ledger_log: "list_all refless es \<Longrightarrow> ledger w \<Longrightarrow> ledger (w\<lparr>log := log w @ es\<rparr>)"
  by (simp add: ledger_def surplus_def keys_of_def refs_list_refless)

lemma CAPIAgent_keeps:
  assumes "capi_ok api"
  shows "agent_keeps (CAPIAgent api dis) ledger"
proof -
  have "keeps ledger (CAPIAgent_List api dis)"
    using CAPIAgent_List_surplus [OF assms] unfolding keeps_def ledger_def by (meson order_trans)
  moreover have "keeps ledger (\<lambda>w. CAPIAgent_SignWithFlags api dis w key dat flags)" for key dat flags
    using CAPIAgent_SignWithFlags_surplus [OF assms] unfolding keeps_def ledger_def by (meson order_trans)
  ultimately show ?thesis
    by unfold_locales (auto simp: CAPIAgent_def CAPIAgent_Sign_def CAPIAgent_refuse_def [abs_def] CAPIAgent_Extension_def
        intro: keeps_return)
qed

text \<open>The stronger invariant when the store's enumeration never breaks off: nothing is owed to the system.\<close>

definition settled :: "'a capi_world_scheme \<Rightarrow> bool" where
  "settled w \<longleftrightarrow> (\<forall>c. surplus w c = 0) \<and> neutral_keys (keys_of w)"

lemma CAPIAgent_settles:
  assumes "capi_ok api" "enum_ok api"
  shows "agent_keeps (CAPIAgent api dis) settled"
proof -
  have "keeps settled (CAPIAgent_List api dis)"
    using CAPIAgent_List_surplus [OF assms(1)] assms(2) unfolding keeps_def settled_def by metis
  moreover have "keeps settled (\<lambda>w. CAPIAgent_SignWithFlags api dis w key dat flags)" for key dat flags
    using CAPIAgent_SignWithFlags_surplus [OF assms(1)] assms(2) unfolding keeps_def settled_def by metis
  ultimately show ?thesis
    by unfold_locales (auto simp: CAPIAgent_def CAPIAgent_Sign_def CAPIAgent_refuse_def [abs_def] CAPIAgent_Extension_def
        intro: keeps_return)
qed

text \<open>
  A third-party agent with a state of its own: it changes the extension of the world only (here the
  keyring), not the smart-card agent's keys nor the history.
\<close>

definition same_capi :: "'a capi_world_scheme \<Rightarrow> 'a capi_world_scheme \<Rightarrow> bool" where
  "same_capi w0 w \<longleftrightarrow> log w = log w0 \<and> keys w = keys w0"

text \<open>
  An invariant that looks at the agent's keys and at the balance of references only is kept by such
  an agent, by notifications and by connections to the host.
\<close>

definition log_blind :: "('a capi_world_scheme \<Rightarrow> bool) \<Rightarrow> bool" where
  "log_blind I \<longleftrightarrow> (\<forall>w w'. I w \<longrightarrow> keys w' = keys w \<longrightarrow> (\<forall>c. refs (log w') c = refs (log w) c) \<longrightarrow> I w')"

lemma log_blind_append: "log_blind I \<Longrightarrow> list_all refless es \<Longrightarrow> I w \<Longrightarrow> I (w\<lparr>log := log w @ es\<rparr>)"
  unfolding log_blind_def by (elim allE [of _ w] allE [of _ "w\<lparr>log := log w @ es\<rparr>"]) (simp add: refs_list_refless)

lemma log_blind_same: "log_blind I \<Longrightarrow> I w \<Longrightarrow> same_capi w w' \<Longrightarrow> I w'"
  unfolding log_blind_def same_capi_def by metis

lemma log_blind_ledger: "log_blind ledger"
  by (simp add: log_blind_def ledger_def surplus_def keys_of_def)

lemma foreign_keeps:
  assumes "\<And>w0. agent_keeps ag (same_capi w0)" "log_blind I"
  shows "agent_keeps ag I"
proof -
  have *: "keeps I f" if "\<And>w0. keeps (same_capi w0) f" for f :: "'a capi_world_scheme \<Rightarrow> ('a capi_world_scheme, 'r) act"
  proof (rule keepsI)
    fix w w' r assume "I w" "f w = Some (w', r)"
    moreover from this keepsD [OF that, of w w] have "same_capi w w'" by (auto simp: same_capi_def)
    ultimately show "I w'" using log_blind_same [OF assms(2)] by blast
  qed
  note facts = agent_keeps.List_keeps agent_keeps.Sign_keeps agent_keeps.Add_keeps agent_keeps.Remove_keeps
    agent_keeps.RemoveAll_keeps agent_keeps.Lock_keeps agent_keeps.Unlock_keeps agent_keeps.Signers_keeps
  show ?thesis
    by unfold_locales
      (rule *, rule facts [OF assms(1)] agent_keeps.SignWithFlags_keeps [OF assms(1)] agent_keeps.Extension_keeps [OF assms(1)], assumption?)+
qed

text \<open>
  The agent that \<^verbatim>\<open>main\<close> builds by default: the keyring first, then the smart card.
\<close>

definition default_agent :: "('a capi_world_scheme) agent \<Rightarrow> ssh_api \<Rightarrow> bool \<Rightarrow> ('a capi_world_scheme) agent" where
  "default_agent ring api dis = NewWrappedAgent (KeyRingAgent ring) [CAPIAgent api dis]"

definition foreign :: "('a capi_world_scheme) agent \<Rightarrow> bool" where
  "foreign ag \<longleftrightarrow> (\<forall>w0. agent_keeps ag (same_capi w0))"

lemma foreign_same: "foreign ag \<Longrightarrow> agent_keeps ag (same_capi w)"
  by (simp add: foreign_def)

lemma KeyRingAgent_blind:
  assumes "foreign ring" "log_blind I"
  shows "agent_keeps (KeyRingAgent ring) I"
  by (rule KeyRingAgent_keeps [OF foreign_keeps [OF foreign_same [OF assms(1)] assms(2)]])
     (simp add: notify_def log_blind_append [OF assms(2)] refless_def)

lemma HVAgent_blind:
  assumes "\<forall>c. foreign (client c)" "log_blind I"
  shows "agent_keeps (HVAgent dial client) I"
proof -
  note k = foreign_keeps [OF foreign_same [OF assms(1) [THEN spec]] assms(2)]
  have ev: "I w \<Longrightarrow> I (w\<lparr>log := log w @ [HvDial c]\<rparr>)" "I w \<Longrightarrow> I (w\<lparr>log := log w @ [HvClose c]\<rparr>)" for w c
    by (simp_all add: log_blind_append [OF assms(2)] refless_def)
  have "keeps I (hv_request dial (\<lambda>c. ag_List (client c)))"
    by (intro hv_request_keeps agent_keeps.List_keeps [OF k] ev)
  moreover have "keeps I (hv_request dial (\<lambda>c v. ag_Sign (client c) v key dat))" for key dat
    by (intro hv_request_keeps agent_keeps.Sign_keeps [OF k] ev)
  ultimately show ?thesis
    by unfold_locales (auto simp: HVAgent_def CAPIAgent_refuse_def [abs_def] intro: keeps_return)
qed

lemma keeps_cond: "(P \<Longrightarrow> agent_keeps ag I) \<Longrightarrow> agent_keeps ag (\<lambda>w. P \<longrightarrow> I w)"
proof (cases P)
  case False
  then show ?thesis by unfold_locales (simp_all add: keeps_def)
qed simp

interpretation card: agent_keeps "CAPIAgent api dis" "\<lambda>w. capi_ok api \<longrightarrow> ledger w"
  by (rule keeps_cond) (rule CAPIAgent_keeps)

lemma default_agent_keeps:
  assumes "capi_ok api" "foreign ring"
  shows "agent_keeps (default_agent ring api dis) ledger"
proof -
  note KeyRingAgent_blind [OF assms(2) log_blind_ledger]
  with CAPIAgent_keeps [OF assms(1), of dis] show ?thesis
    unfolding default_agent_def NewWrappedAgent_def by (intro WrappedAgent_keeps) auto
qed

interpretation composed: agent_keeps "default_agent ring api dis" "\<lambda>w. capi_ok api \<and> foreign ring \<longrightarrow> ledger w"
  by (rule keeps_cond) (simp add: default_agent_keeps)

subsection \<open>Properties\<close>

text \<open>
  The agent of the default configuration, keyring and smart card together, never
  gives back a certificate reference it still needs, whatever sequence of requests it serves: the
  keys of the smart-card agent are covered by references after every request.
\<close>

theorem default_agent_ledger:
  assumes "capi_ok api" and "foreign ring" and "keys w = None" and "log w = []"
    and "agent_run (default_agent ring api dis) ops w = Some w'"
  shows "held (map key_cert (keys_of w')) c \<le> refs (log w') c"
proof -
  have "ledger w" using assms(3,4) by (simp add: ledger_def surplus_def keys_of_def)
  with composed.run_keeps [OF assms(5)] assms(1,2) have "ledger w'" by blast
  then show ?thesis by (simp add: ledger_def surplus_def)
qed

lemma foreign_empty_ring: "foreign empty_ring"
  unfolding foreign_def by (intro allI, unfold_locales) (auto simp: empty_ring_def refuse_ext_def keeps_def)

lemma demo_default_list:
  "\<exists>w. agent_run (default_agent empty_ring (ssh_demo True) True) [OpList] capi_start = Some w \<and> keys w = Some [demo_key]"
  using demo_list
  by (auto simp: default_agent_def NewWrappedAgent_def WrappedAgent_def KeyRingAgent_def CAPIAgent_def empty_ring_def
      and_then_def discard_def)

theorem default_agent_ledger_witness:
  "\<exists>w. agent_run (default_agent empty_ring (ssh_demo True) True) [OpList] capi_start = Some w \<and> 1 \<le> refs (log w) 11"
proof -
  obtain w where w: "agent_run (default_agent empty_ring (ssh_demo True) True) [OpList] capi_start = Some w"
      "keys w = Some [demo_key]"
    using demo_default_list by blast
  from default_agent_ledger [OF capi_ok_demo foreign_empty_ring _ _ w(1), of 11] w show ?thesis
    by (simp add: capi_start_def keys_of_def demo_key_def)
qed

lemma Wrapped_Sign_skip:
  assumes "all_fail pre w key dat flags = Some (w1, errs)"
  shows "WrappedAgent_SignWithFlags (pre @ ags) fe w key dat flags =
    WrappedAgent_SignWithFlags ags (case fe of Some e \<Rightarrow> Some e | None \<Rightarrow> if errs = [] then None else Some (hd errs)) w1 key dat flags"
  using assms
proof (induction pre arbitrary: w errs fe)
  case (Cons a pre)
  then obtain w2 e es where *: "sign_one a w key dat flags = Some (w2, Fail e)"
      "all_fail pre w2 key dat flags = Some (w1, es)" "errs = e # es"
    by (auto split: option.splits prod.splits outcome.splits)
  from Cons.IH [OF *(2)] *(1,3) show ?case by (simp add: and_then_def split: option.split)
qed (simp split: option.split)

text \<open>
  Property C15. A sign request is answered by the first agent that can: if all agents before it
  fail, its signature is the answer and the agents after it are not asked; if every agent fails,
  the error of the first one is reported.
\<close>

theorem WrappedAgent_first_success:
  assumes "all_fail pre w key dat flags = Some (w1, errs)"
  shows "(\<forall>ag post w2 sig. sign_one ag w1 key dat flags = Some (w2, Ret sig) \<longrightarrow>
      WrappedAgent_SignWithFlags (pre @ ag # post) None w key dat flags = Some (w2, Ret sig)) \<and>
    (pre \<noteq> [] \<longrightarrow> WrappedAgent_SignWithFlags pre None w key dat flags = Some (w1, Fail (hd errs)))"
proof -
  have "pre \<noteq> [] \<Longrightarrow> errs \<noteq> []"
    using assms by (cases pre) (auto split: option.splits prod.splits outcome.splits)
  then show ?thesis
    using Wrapped_Sign_skip [OF assms, of _ None] Wrapped_Sign_skip [OF assms, of "[]" None]
    by (auto simp: and_then_def)
qed

theorem WrappedAgent_first_success_witness:
  "WrappedAgent_SignWithFlags [empty_ring, empty_ring] None capi_start \<lparr>pub_Type = ''ssh-rsa'', pub_Marshal = [1]\<rparr> [7] 0 =
     Some (capi_start, Fail (Errorf ''not found''))"
  using WrappedAgent_first_success [of "[empty_ring, empty_ring]" capi_start "\<lparr>pub_Type = ''ssh-rsa'', pub_Marshal = [1]\<rparr>" "[7]" 0 capi_start
      "[Errorf ''not found'', Errorf ''not found'']"]
  by (simp add: sign_one_def empty_ring_def)

lemma with_notice_Some:
  "with_notice t m act = Some (w', r) \<longleftrightarrow> (\<exists>w2. act = Some (w2, r) \<and> w' = (case r of Ret x \<Rightarrow> notify t m w2 | _ \<Rightarrow> w2))"
proof (cases act)
  case (Some p)
  obtain w1 r1 where "p = (w1, r1)" by (cases p)
  with Some show ?thesis by (cases r1) (auto simp: with_notice_def and_then_def)
qed (simp add: with_notice_def and_then_def)

text \<open>
  The keyring tells the user about every signature it makes and about nothing else: a
  request that succeeds adds exactly one notification, naming the comment of the key or, when the
  key is not listed, its encoding; a request that fails adds none.
\<close>

theorem KeyRing_notice:
  assumes "foreign ring" and "KeyRingAgent_SignWithFlags ring w key dat flags = Some (w', r)"
  shows "\<exists>comment. log w' = log w @ (case r of
      Ret sig \<Rightarrow> [Notify ''Authenticated (Keyring)'' (''Authentication Success by Key <'' @ comment @ ''>'')] | _ \<Rightarrow> []) \<and>
    (\<forall>w1 ks. ag_List ring w = Some (w1, Ret ks) \<longrightarrow> comment = find_comment (pub_Marshal key) ks)"
proof -
  have L: "log w1 = log w" if "ag_List ring w = Some (w1, x)" for w w1 x
    using keepsD [OF agent_keeps.List_keeps [OF foreign_same [OF assms(1), of w]], of w w1 x] that
    by (simp add: same_capi_def)
  have S: "log w1 = log w" if "ag_extended ring = Some (sf, ext)" "sf w key dat flags = Some (w1, x)" for w w1 x sf ext
    using keepsD [OF agent_keeps.SignWithFlags_keeps [OF foreign_same [OF assms(1), of w] that(1)], of w key dat flags w1 x] that(2)
    by (simp add: same_capi_def)
  obtain w1 c where 1: "KeyRingAgent_findKeyComment ring w key = Some (w1, c)"
    using assms(2) by (auto simp: KeyRingAgent_SignWithFlags_def and_then_Some)
  then obtain v x where v: "ag_List ring w = Some (v, x)"
    by (auto simp: KeyRingAgent_findKeyComment_def and_then_Some)
  have w1: "log w1 = log w" and c: "\<And>u ks. ag_List ring w = Some (u, Ret ks) \<Longrightarrow> c = Ret (find_comment (pub_Marshal key) ks)"
    using 1 v L [OF v] by (cases x; auto simp: KeyRingAgent_findKeyComment_def and_then_Some)+
  show ?thesis
  proof (cases c)
    case (Ret comment)
    let ?m = "case ag_extended ring of Some (sf, ext) \<Rightarrow> sf w1 key dat flags | None \<Rightarrow> Some (w1, Panic ''interface conversion'')"
    from assms(2) 1 Ret obtain w2 where 2: "?m = Some (w2, r)"
        "w' = (case r of Ret x \<Rightarrow> notify ''Authenticated (Keyring)'' (''Authentication Success by Key <'' @ comment @ ''>'') w2 | _ \<Rightarrow> w2)"
      unfolding KeyRingAgent_SignWithFlags_def and_then_Some by (auto simp only: with_notice_Some outcome.case option.inject prod.inject)
    then have "log w2 = log w" using S w1 by (auto split: option.splits)
    with 2(2) c Ret show ?thesis by (auto simp: notify_def split: outcome.splits)
  qed (use assms(2) 1 w1 c in \<open>auto simp: KeyRingAgent_SignWithFlags_def and_then_Some\<close>)
qed

theorem KeyRing_notice_witness:
  "\<exists>w' r. KeyRingAgent_SignWithFlags empty_ring capi_start \<lparr>pub_Type = ''ssh-rsa'', pub_Marshal = [1]\<rparr> [7] 2 = Some (w', r) \<and>
     log w' = []"
proof -
  have e: "KeyRingAgent_SignWithFlags empty_ring capi_start \<lparr>pub_Type = ''ssh-rsa'', pub_Marshal = [1]\<rparr> [7] 2 =
      Some (capi_start, Fail (Errorf ''not found''))"
    by (simp add: KeyRingAgent_SignWithFlags_def KeyRingAgent_findKeyComment_def with_notice_def and_then_def empty_ring_def)
  from KeyRing_notice [OF foreign_empty_ring e] e show ?thesis by (auto simp: capi_start_def)
qed

text \<open>
  The Hyper-V agent is not an extended agent, so the flags of a sign request are dropped: the host
  is asked for a signature with the default hash whatever the client wanted.
\<close>

lemma HVAgent_drops_flags: "sign_one (HVAgent dial client) w key dat flags = sign_one (HVAgent dial client) w key dat 0"
  by (simp add: sign_one_def HVAgent_def)

lemma hv_request_closes:
  assumes "dial (log w) = Ret c" "hv_request dial req w = Some (w', r)"
  shows "last (log w') = HvClose c"
  using assms by (auto simp: hv_request_def and_then_Some)

end
