(* ===== verification/Relay.thy ===== *)
theory Relay
  imports KB_Prelude "HOL-Library.Sublist"
begin

section \<open>The relay (\<^verbatim>\<open>relay.go\<close>)\<close>

text \<open>
  \<^verbatim>\<open>keybridge relay\<close> copies its standard input to a named pipe and the pipe to its standard output. The
  model has Go's flag parser as the command uses it, the dialling loop, and the two copying
  goroutines as a step relation that interleaves them arbitrarily. Log output is left out.
\<close>

subsection \<open>Flags\<close>

record relay_opts =
  poll :: bool
  closeWrite :: bool
  closeOnPipeEOF :: bool
  closeOnStdinEOF :: bool
  verbose :: bool

definition no_opts :: relay_opts where
  "no_opts = \<lparr>poll = False, closeWrite = False, closeOnPipeEOF = False, closeOnStdinEOF = False, verbose = False\<rparr>"

definition set_flag :: "string \<Rightarrow> bool \<Rightarrow> relay_opts \<Rightarrow> relay_opts option" where
  "set_flag name b op =
     (if name = ''p'' then Some (op\<lparr>poll := b\<rparr>)
      else if name = ''s'' then Some (op\<lparr>closeWrite := b\<rparr>)
      else if name = ''ep'' then Some (op\<lparr>closeOnPipeEOF := b\<rparr>)
      else if name = ''ei'' then Some (op\<lparr>closeOnStdinEOF := b\<rparr>)
      else if name = ''v'' then Some (op\<lparr>verbose := b\<rparr>)
      else None)"

text \<open>\<^verbatim>\<open>strconv.ParseBool\<close>.\<close>

definition ParseBool :: "string \<Rightarrow> bool option" where
  "ParseBool s =
     (if s \<in> {''1'', ''t'', ''T'', ''TRUE'', ''true'', ''True''} then Some True
      else if s \<in> {''0'', ''f'', ''F'', ''FALSE'', ''false'', ''False''} then Some False
      else None)"

text \<open>
  One argument, as \<^verbatim>\<open>FlagSet.parseOne\<close> treats it: not a flag (parsing stops before it), the terminator
  \<^verbatim>\<open>--\<close>, a flag that sets an option, or the end of the process, with code 0 for the help flags and 2
  for an error (\<^verbatim>\<open>flag.ExitOnError\<close>).
\<close>

datatype arg_kind = NotFlag | Terminator | SetTo relay_opts | Exits nat

definition split_eq :: "string \<Rightarrow> string \<times> string option" where
  "split_eq s =
     (case takeWhile (\<lambda>c. c \<noteq> CHR ''='') s of n \<Rightarrow>
        if length n = length s then (s, None) else (n, Some (drop (length n + 1) s)))"

definition parse_name :: "string \<Rightarrow> relay_opts \<Rightarrow> arg_kind" where
  "parse_name nm op =
     (if nm = [] \<or> hd nm = CHR ''-'' \<or> hd nm = CHR ''='' then Exits 2
      else case split_eq nm of (name, value) \<Rightarrow>
        if set_flag name True op = None then (if name = ''help'' \<or> name = ''h'' then Exits 0 else Exits 2)
        else case value of
          None \<Rightarrow> (case set_flag name True op of None \<Rightarrow> Exits 2 | Some op' \<Rightarrow> SetTo op')
        | Some v \<Rightarrow>
            (case ParseBool v of
               None \<Rightarrow> Exits 2
             | Some b \<Rightarrow> (case set_flag name b op of None \<Rightarrow> Exits 2 | Some op' \<Rightarrow> SetTo op')))"

definition parseOne :: "string \<Rightarrow> relay_opts \<Rightarrow> arg_kind" where
  "parseOne s op =
     (if length s < 2 \<or> hd s \<noteq> CHR ''-'' then NotFlag
      else if s ! 1 = CHR ''-'' then
        (if length s = 2 then Terminator else parse_name (drop 2 s) op)
      else parse_name (drop 1 s) op)"

datatype parsed = Parsed relay_opts "string list" | ParseExit nat

fun parse_flags :: "string list \<Rightarrow> relay_opts \<Rightarrow> parsed" where
  "parse_flags [] op = Parsed op []"
| "parse_flags (s # args) op =
     (case parseOne s op of
        NotFlag \<Rightarrow> Parsed op (s # args)
      | Terminator \<Rightarrow> Parsed op args
      | SetTo op' \<Rightarrow> parse_flags args op'
      | Exits n \<Rightarrow> ParseExit n)"

text \<open>The start of \<^verbatim>\<open>runRelay\<close>: exactly one argument must be left, the pipe's path.\<close>

definition relay_args :: "string list \<Rightarrow> (relay_opts \<times> string, nat) sum" where
  "relay_args args =
     (case parse_flags args no_opts of
        ParseExit n \<Rightarrow> Inr n
      | Parsed op rest \<Rightarrow> (if length rest \<noteq> 1 then Inr 1 else Inl (op, rest ! 0)))"

subsection \<open>Dialling\<close>

text \<open>
  \<open>dial k\<close> is the answer of the \<open>k\<close>-th attempt (\<^verbatim>\<open>winio.DialPipe\<close>). \<^verbatim>\<open>os.IsNotExist\<close> is true of
  \<^verbatim>\<open>ErrNotExist\<close> and of the errors 2, 3 and 53 of Windows (file, path and network path not found). The result also says
  how many attempts were made.
\<close>

definition IsNotExist :: "go_error \<Rightarrow> bool" where
  "IsNotExist e \<longleftrightarrow> e = ErrNotExist \<or> e = Errno 2 \<or> e = Errno 3 \<or> e = Errno 53"

definition retryable :: "go_error \<Rightarrow> bool" where
  "retryable e \<longleftrightarrow> IsNotExist e \<or> e = ErrTimeout"

partial_function (option) dialPipeWithPoll :: "(nat \<Rightarrow> go_error + nat) \<Rightarrow> bool \<Rightarrow> nat \<Rightarrow> (nat \<times> (go_error + nat)) option" where
  "dialPipeWithPoll dial pol k =
     (case dial k of
        Inr conn \<Rightarrow> Some (Suc k, Inr conn)
      | Inl err \<Rightarrow>
          if pol \<and> (IsNotExist err \<or> err = ErrTimeout) then dialPipeWithPoll dial pol (Suc k)
          else Some (Suc k, Inl err))"

subsection \<open>Copying\<close>

text \<open>
  \<^verbatim>\<open>io.Copy\<close> reads a chunk into a buffer and then writes it out. A direction has the chunks that its
  source will still deliver before its end, the chunk in the buffer and the bytes written.
\<close>

record direction =
  src :: "bytes list"
  buf :: "bytes option"
  written :: bytes

definition fresh :: "bytes list \<Rightarrow> direction" where
  "fresh chunks = \<lparr>src = chunks, buf = None, written = []\<rparr>"

text \<open>
  The goroutine that copies standard input: copying, then \<^verbatim>\<open>-s\<close>, then \<^verbatim>\<open>-ei\<close>, then \<^verbatim>\<open>close(stdinDone)\<close>.
  The main goroutine: copying, then \<^verbatim>\<open>-ep\<close>, then closing standard output and waiting.
\<close>

datatype stdin_pc = InCopy | InSignal | InExit | InDone
datatype stdout_pc = OutCopy | OutExit | OutWait

record relay_state =
  to_pipe :: direction
  in_at :: stdin_pc
  closeWrite_call :: "go_error option option"
  to_stdout :: direction
  out_at :: stdout_pc
  stdout_closed :: bool
  exit_code :: "nat option"

definition relay_start :: "bytes list \<Rightarrow> bytes list \<Rightarrow> relay_state" where
  "relay_start stdin pipe = \<lparr>to_pipe = fresh stdin, in_at = InCopy, closeWrite_call = None,
     to_stdout = fresh pipe, out_at = OutCopy, stdout_closed = False, exit_code = None\<rparr>"

inductive copy_step :: "direction \<Rightarrow> direction \<Rightarrow> bool" where
  copy_read: "buf d = None \<Longrightarrow> src d = c # cs \<Longrightarrow> copy_step d (d\<lparr>buf := Some c, src := cs\<rparr>)"
| copy_write: "buf d = Some c \<Longrightarrow> copy_step d (d\<lparr>buf := None, written := written d @ c\<rparr>)"

definition copy_over :: "direction \<Rightarrow> bool" where
  "copy_over d \<longleftrightarrow> buf d = None \<and> src d = []"

text \<open>
  \<open>msgmode\<close> says whether the connection implements \<^verbatim>\<open>CloseWrite\<close>, and \<open>closeWrite_call\<close> holds the result
  of that call once it was made; an error of it is only logged. An error while copying ends the
  process with code 1 (\<^verbatim>\<open>log.Fatalln\<close>); it can strike at any point of a copy.
\<close>

inductive relay_step :: "relay_opts \<Rightarrow> bool \<Rightarrow> relay_state \<Rightarrow> relay_state \<Rightarrow> bool" for opts msgmode where
  in_copy: "exit_code s = None \<Longrightarrow> in_at s = InCopy \<Longrightarrow> copy_step (to_pipe s) d \<Longrightarrow>
    relay_step opts msgmode s (s\<lparr>to_pipe := d\<rparr>)"
| in_fatal: "exit_code s = None \<Longrightarrow> in_at s = InCopy \<Longrightarrow> relay_step opts msgmode s (s\<lparr>exit_code := Some 1\<rparr>)"
| in_eof: "exit_code s = None \<Longrightarrow> in_at s = InCopy \<Longrightarrow> copy_over (to_pipe s) \<Longrightarrow>
    relay_step opts msgmode s (s\<lparr>in_at := InSignal\<rparr>)"
| in_signal: "exit_code s = None \<Longrightarrow> in_at s = InSignal \<Longrightarrow> closeWrite opts \<Longrightarrow> msgmode \<Longrightarrow>
    relay_step opts msgmode s (s\<lparr>in_at := InExit, closeWrite_call := Some err\<rparr>)"
| in_no_signal: "exit_code s = None \<Longrightarrow> in_at s = InSignal \<Longrightarrow> \<not> (closeWrite opts \<and> msgmode) \<Longrightarrow>
    relay_step opts msgmode s (s\<lparr>in_at := InExit\<rparr>)"
| in_exit: "exit_code s = None \<Longrightarrow> in_at s = InExit \<Longrightarrow> closeOnStdinEOF opts \<Longrightarrow>
    relay_step opts msgmode s (s\<lparr>exit_code := Some 0\<rparr>)"
| in_done: "exit_code s = None \<Longrightarrow> in_at s = InExit \<Longrightarrow> \<not> closeOnStdinEOF opts \<Longrightarrow>
    relay_step opts msgmode s (s\<lparr>in_at := InDone\<rparr>)"
| out_copy: "exit_code s = None \<Longrightarrow> out_at s = OutCopy \<Longrightarrow> copy_step (to_stdout s) d \<Longrightarrow>
    relay_step opts msgmode s (s\<lparr>to_stdout := d\<rparr>)"
| out_fatal: "exit_code s = None \<Longrightarrow> out_at s = OutCopy \<Longrightarrow> relay_step opts msgmode s (s\<lparr>exit_code := Some 1\<rparr>)"
| out_eof: "exit_code s = None \<Longrightarrow> out_at s = OutCopy \<Longrightarrow> copy_over (to_stdout s) \<Longrightarrow>
    relay_step opts msgmode s (s\<lparr>out_at := OutExit\<rparr>)"
| out_exit: "exit_code s = None \<Longrightarrow> out_at s = OutExit \<Longrightarrow> closeOnPipeEOF opts \<Longrightarrow>
    relay_step opts msgmode s (s\<lparr>exit_code := Some 0\<rparr>)"
| out_close: "exit_code s = None \<Longrightarrow> out_at s = OutExit \<Longrightarrow> \<not> closeOnPipeEOF opts \<Longrightarrow>
    relay_step opts msgmode s (s\<lparr>out_at := OutWait, stdout_closed := True\<rparr>)"
| out_joined: "exit_code s = None \<Longrightarrow> out_at s = OutWait \<Longrightarrow> in_at s = InDone \<Longrightarrow>
    relay_step opts msgmode s (s\<lparr>exit_code := Some 0\<rparr>)"
| out_timeout: "exit_code s = None \<Longrightarrow> out_at s = OutWait \<Longrightarrow> relay_step opts msgmode s (s\<lparr>exit_code := Some 0\<rparr>)"

inductive_simps copy_step_iff: "copy_step d d'"

abbreviation relay_reachable :: "relay_opts \<Rightarrow> bool \<Rightarrow> bytes list \<Rightarrow> bytes list \<Rightarrow> relay_state \<Rightarrow> bool" where
  "relay_reachable opts msgmode stdin pipe \<equiv> (relay_step opts msgmode)\<^sup>*\<^sup>* (relay_start stdin pipe)"

subsection \<open>Invariants\<close>

text \<open>Nothing is lost, repeated or reordered on the way through a direction.\<close>

definition all_bytes :: "direction \<Rightarrow> bytes" where
  "all_bytes d = written d @ (case buf d of None \<Rightarrow> [] | Some c \<Rightarrow> c) @ concat (src d)"

lemma copy_step_bytes: "copy_step d d' \<Longrightarrow> all_bytes d' = all_bytes d"
  by (auto simp: all_bytes_def elim: copy_step.cases)

lemma all_bytes_fresh [simp]: "all_bytes (fresh cs) = concat cs"
  by (simp add: all_bytes_def fresh_def)

lemma copy_over_written: "copy_over d \<Longrightarrow> written d = all_bytes d"
  by (simp add: copy_over_def all_bytes_def)

definition relay_inv :: "relay_opts \<Rightarrow> bool \<Rightarrow> bytes \<Rightarrow> bytes \<Rightarrow> relay_state \<Rightarrow> bool" where
  "relay_inv opts msgmode stdin pipe s \<longleftrightarrow>
     all_bytes (to_pipe s) = stdin \<and> all_bytes (to_stdout s) = pipe \<and>
     (in_at s \<noteq> InCopy \<longrightarrow> copy_over (to_pipe s)) \<and>
     (in_at s \<in> {InExit, InDone} \<longrightarrow> (closeWrite_call s \<noteq> None) = (closeWrite opts \<and> msgmode)) \<and>
     (in_at s \<in> {InCopy, InSignal} \<longrightarrow> closeWrite_call s = None) \<and>
     (out_at s \<noteq> OutCopy \<longrightarrow> copy_over (to_stdout s)) \<and>
     (exit_code s = Some 0 \<longrightarrow> out_at s \<noteq> OutCopy \<or> in_at s = InExit \<and> closeOnStdinEOF opts)"

lemma relay_step_inv:
  assumes "relay_step opts msgmode s s'" "relay_inv opts msgmode stdin pipe s"
  shows "relay_inv opts msgmode stdin pipe s'"
  using assms(1)
proof cases
  case (in_copy d)
  then show ?thesis using assms(2) copy_step_bytes [OF in_copy(4)] by (simp add: relay_inv_def)
next
  case (out_copy d)
  then show ?thesis using assms(2) copy_step_bytes [OF out_copy(4)] by (simp add: relay_inv_def)
qed (use assms(2) in \<open>simp_all add: relay_inv_def\<close>)

lemma relay_reachable_inv:
  assumes "relay_reachable opts msgmode stdin pipe s"
  shows "relay_inv opts msgmode (concat stdin) (concat pipe) s"
  using assms
proof (induction rule: rtranclp_induct)
  case base
  then show ?case by (simp add: relay_inv_def relay_start_def)
next
  case (step s s')
  then show ?case by (blast intro: relay_step_inv)
qed

subsection \<open>Properties\<close>

text \<open>
  Property C12. A successful exit: if the process ends with code 0, then either everything the pipe
  sent has been written to standard output, or \<^verbatim>\<open>-ei\<close> was given and everything read from standard
  input has been written to the pipe, and for \<^verbatim>\<open>-s\<close> on a message-mode pipe the end-of-data signal was
  attempted after that (\<^verbatim>\<open>CloseWrite\<close> was called; a byte-mode pipe has no such call, and an error of
  the call is only logged).
\<close>

theorem relay_exit_complete:
  assumes "relay_reachable opts msgmode stdin pipe s" and "exit_code s = Some 0"
  shows "written (to_stdout s) = concat pipe \<or>
    closeOnStdinEOF opts \<and> written (to_pipe s) = concat stdin \<and> (closeWrite opts \<and> msgmode \<longleftrightarrow> closeWrite_call s \<noteq> None)"
proof -
  note inv = relay_reachable_inv [OF assms(1), unfolded relay_inv_def]
  have "out_at s \<noteq> OutCopy \<Longrightarrow> written (to_stdout s) = concat pipe"
    using inv copy_over_written [of "to_stdout s"] by simp
  moreover have "in_at s = InExit \<Longrightarrow> written (to_pipe s) = concat stdin \<and> (closeWrite opts \<and> msgmode \<longleftrightarrow> closeWrite_call s \<noteq> None)"
    using inv copy_over_written [of "to_pipe s"] by simp
  ultimately show ?thesis using inv assms(2) by blast
qed

lemma dial_retries:
  assumes "\<And>i. i < n \<Longrightarrow> \<exists>e. dial (k + i) = Inl e \<and> retryable e"
  shows "dialPipeWithPoll dial True k = dialPipeWithPoll dial True (k + n)"
  using assms
proof (induction n arbitrary: k)
  case (Suc n)
  from Suc.prems [of 0] obtain e where "dial k = Inl e" "retryable e" by auto
  then have "dialPipeWithPoll dial True k = dialPipeWithPoll dial True (Suc k)"
    by (subst dialPipeWithPoll.simps) (auto simp: retryable_def)
  also have "\<dots> = dialPipeWithPoll dial True (Suc k + n)"
    by (rule Suc.IH) (use Suc.prems in \<open>metis Suc_less_eq add_Suc_shift\<close>)
  finally show ?case by simp
qed simp

text \<open>
  Property C34. Polling: with \<^verbatim>\<open>-p\<close>, if the pipe becomes available at some attempt and every attempt
  before failed because it did not exist or was busy, the dialling loop ends with the connection
  after exactly that many attempts; without \<^verbatim>\<open>-p\<close>, or for any other error, the first attempt that
  does not qualify decides.
\<close>

theorem dialPipeWithPoll_polls:
  assumes "list_all (\<lambda>i. \<exists>e. dial i = Inl e \<and> retryable e) [0..<n]"
    and "dial n = r" and "\<forall>e. r = Inl e \<longrightarrow> \<not> retryable e"
  shows "dialPipeWithPoll dial True 0 = Some (Suc n, r) \<and> dialPipeWithPoll dial False 0 = Some (1, dial 0)"
proof -
  have "dialPipeWithPoll dial True 0 = dialPipeWithPoll dial True (0 + n)"
    using assms(1) by (intro dial_retries) (simp add: list_all_iff)
  moreover have "dialPipeWithPoll dial True n = Some (Suc n, r)"
    using assms(2,3) by (subst dialPipeWithPoll.simps) (auto simp: retryable_def split: sum.split)
  moreover have "dialPipeWithPoll dial False 0 = Some (1, dial 0)"
    by (subst dialPipeWithPoll.simps) (simp split: sum.split)
  ultimately show ?thesis by simp
qed

definition relay_flags :: "string list" where
  "relay_flags = [''-p'', ''-s'', ''-ep'', ''-ei'', ''-v'']"

definition opts_of :: "string list \<Rightarrow> relay_opts" where
  "opts_of fs = \<lparr>poll = ''-p'' \<in> set fs, closeWrite = ''-s'' \<in> set fs, closeOnPipeEOF = ''-ep'' \<in> set fs,
     closeOnStdinEOF = ''-ei'' \<in> set fs, verbose = ''-v'' \<in> set fs\<rparr>"

lemma parseOne_flags:
  "parseOne ''-p'' op = SetTo (op\<lparr>poll := True\<rparr>)" "parseOne ''-s'' op = SetTo (op\<lparr>closeWrite := True\<rparr>)"
  "parseOne ''-ep'' op = SetTo (op\<lparr>closeOnPipeEOF := True\<rparr>)" "parseOne ''-ei'' op = SetTo (op\<lparr>closeOnStdinEOF := True\<rparr>)"
  "parseOne ''-v'' op = SetTo (op\<lparr>verbose := True\<rparr>)"
  by (simp_all add: parseOne_def parse_name_def split_eq_def set_flag_def)

definition merge :: "relay_opts \<Rightarrow> string list \<Rightarrow> relay_opts" where
  "merge op fs = \<lparr>poll = poll op \<or> ''-p'' \<in> set fs, closeWrite = closeWrite op \<or> ''-s'' \<in> set fs,
     closeOnPipeEOF = closeOnPipeEOF op \<or> ''-ep'' \<in> set fs, closeOnStdinEOF = closeOnStdinEOF op \<or> ''-ei'' \<in> set fs,
     verbose = verbose op \<or> ''-v'' \<in> set fs\<rparr>"

lemma parse_flags_run:
  assumes "set fs \<subseteq> set relay_flags"
  shows "parse_flags (fs @ args) op = parse_flags args (merge op fs)"
  using assms
proof (induction fs arbitrary: op)
  case (Cons f fs)
  then have "f \<in> set relay_flags" "set fs \<subseteq> set relay_flags" by auto
  then show ?case
    using Cons.IH by (auto simp: relay_flags_def parseOne_flags merge_def)
next
  case Nil
  show ?case by (cases op) (simp add: merge_def)
qed

text \<open>
  The command line: any of the five flags in any order, followed by a path that is not
  itself a flag, selects exactly those options and that path; the same flags after the path are
  not options, and the command ends with code 1.
\<close>

theorem relay_args_flags:
  assumes "set fs \<subseteq> set relay_flags" and "path \<noteq> [] \<longrightarrow> hd path \<noteq> CHR ''-''"
  shows "relay_args (fs @ [path]) = Inl (opts_of fs, path) \<and>
    (late \<noteq> [] \<longrightarrow> relay_args (fs @ path # late) = Inr 1)"
proof -
  have "parseOne path op = NotFlag" for op using assms(2) by (cases path) (auto simp: parseOne_def)
  then show ?thesis
    using parse_flags_run [OF assms(1)]
    by (auto simp: relay_args_def opts_of_def merge_def no_opts_def)
qed

subsection \<open>Witnesses\<close>

theorem relay_args_flags_witness:
  "relay_args ([''-s'', ''-ei''] @ [''pipe'']) = Inl (opts_of [''-s'', ''-ei''], ''pipe'') \<and>
   relay_args ([''-s'', ''-ei''] @ ''pipe'' # [''-v'']) = Inr 1"
  using relay_args_flags [of "[''-s'', ''-ei'']" "''pipe''" "[''-v'']"] by (simp add: relay_flags_def)

theorem dialPipeWithPoll_polls_witness:
  "dialPipeWithPoll (\<lambda>i. if i < 2 then Inl (Errno 2) else Inr 9) True 0 = Some (3, Inr 9)"
  using dialPipeWithPoll_polls [of "\<lambda>i. if i < 2 then Inl (Errno 2) else Inr 9" 2 "Inr 9"]
  by (simp add: retryable_def IsNotExist_def list_all_iff)

lemma ei_run:
  "relay_reachable (opts_of [''-s'', ''-ei'']) True [[1]] [[2]]
     (relay_start [[1]] [[2]]\<lparr>to_pipe := \<lparr>src = [], buf = None, written = [1]\<rparr>, in_at := InExit, closeWrite_call := Some (Some EOF), exit_code := Some 0\<rparr>)"
proof -
  let ?st = "relay_step (opts_of [''-s'', ''-ei'']) True" and ?s = "relay_start [[1]] [[2]]"
  let ?d1 = "\<lparr>src = [], buf = Some [1], written = []\<rparr> :: direction" and ?d2 = "\<lparr>src = [], buf = None, written = [1]\<rparr> :: direction"
  have "?st ?s (?s\<lparr>to_pipe := ?d1\<rparr>)"
    by (rule in_copy) (simp_all add: relay_start_def fresh_def copy_step_iff)
  moreover have "?st (?s\<lparr>to_pipe := ?d1\<rparr>) (?s\<lparr>to_pipe := ?d1, to_pipe := ?d2\<rparr>)"
    by (rule in_copy) (simp_all add: relay_start_def copy_step_iff)
  moreover have "?st (?s\<lparr>to_pipe := ?d2\<rparr>) (?s\<lparr>to_pipe := ?d2, in_at := InSignal\<rparr>)"
    by (rule in_eof) (simp_all add: relay_start_def copy_over_def)
  moreover have "?st (?s\<lparr>to_pipe := ?d2, in_at := InSignal\<rparr>)
      (?s\<lparr>to_pipe := ?d2, in_at := InSignal, in_at := InExit, closeWrite_call := Some (Some EOF)\<rparr>)"
    by (rule in_signal) (simp_all add: relay_start_def opts_of_def)
  moreover have "?st (?s\<lparr>to_pipe := ?d2, in_at := InExit, closeWrite_call := Some (Some EOF)\<rparr>)
      (?s\<lparr>to_pipe := ?d2, in_at := InExit, closeWrite_call := Some (Some EOF), exit_code := Some 0\<rparr>)"
    by (rule in_exit) (simp_all add: relay_start_def opts_of_def)
  ultimately show ?thesis
    by (simp add: opts_of_def)
qed

theorem relay_exit_complete_witness:
  "\<exists>s. relay_reachable (opts_of [''-s'', ''-ei'']) True [[1]] [[2]] s \<and> exit_code s = Some 0 \<and>
     written (to_stdout s) = [] \<and> closeWrite_call s \<noteq> None"
proof -
  let ?s = "relay_start [[1]] [[2]]\<lparr>to_pipe := \<lparr>src = [], buf = None, written = [1]\<rparr>, in_at := InExit, closeWrite_call := Some (Some EOF), exit_code := Some 0\<rparr>"
  have "written (to_stdout ?s) = []" by (simp add: relay_start_def fresh_def)
  moreover from relay_exit_complete [OF ei_run] this have "closeWrite_call ?s \<noteq> None" by (simp add: opts_of_def)
  ultimately show ?thesis using ei_run by (intro exI [of _ ?s]) simp
qed

end
