(* ===== verification/App_Main.thy ===== *)
theory App_Main
  imports App_VSock Agents Relay
begin

section \<open>The application (\<^verbatim>\<open>app/app.go\<close>, \<^verbatim>\<open>menu.go\<close>, \<^verbatim>\<open>main.go\<close> and the menu handlers)\<close>

text \<open>
  The tray menu, the handlers behind it, and \<^verbatim>\<open>main\<close>: which mode to run in, which agent to build, the
  event loop and the shutdown. What a handler shows or starts is recorded as a list of \<open>ui\<close> calls;
  the button that the user presses is an argument.
\<close>

subsection \<open>Application ids and names\<close>

text \<open>The constants continue an \<^verbatim>\<open>iota\<close> that starts at the first string constant of the block.\<close>

type_synonym AppId = nat

definition NAMED_PIPE :: string where
  "NAMED_PIPE = [CHR 0x5C, CHR 0x5C, CHR ''.'', CHR 0x5C] @ ''pipe'' @ [CHR 0x5C] @ ''openssh-ssh-agent''"
definition APP_CYGWIN :: AppId where "APP_CYGWIN = 3"
definition APP_WSL :: AppId where "APP_WSL = 4"
definition APP_WINSSH :: AppId where "APP_WINSSH = 5"
definition APP_HYPERV :: AppId where "APP_HYPERV = 6"
definition APP_SECURECRT :: AppId where "APP_SECURECRT = 7"
definition APP_PAGEANT :: AppId where "APP_PAGEANT = 8"
definition APP_XSHELL :: AppId where "APP_XSHELL = 9"
definition APP_PUBKEY :: AppId where "APP_PUBKEY = 10"
definition APP_WSL2 :: AppId where "APP_WSL2 = 11"
definition MENU_QUIT :: AppId where "MENU_QUIT = 12"

lemmas id_defs = APP_CYGWIN_def APP_WSL_def APP_WINSSH_def APP_HYPERV_def APP_SECURECRT_def APP_PAGEANT_def
  APP_XSHELL_def APP_PUBKEY_def APP_WSL2_def MENU_QUIT_def

definition appIdToName :: "AppId \<rightharpoonup> string" where
  "appIdToName = [APP_CYGWIN \<mapsto> ''Cygwin'', APP_WSL \<mapsto> ''WSL'', APP_WINSSH \<mapsto> ''WinSSH'',
     APP_SECURECRT \<mapsto> ''SecureCRT'', APP_PAGEANT \<mapsto> ''Pageant'', APP_XSHELL \<mapsto> ''XShell'', APP_HYPERV \<mapsto> ''Hyper-V'']"

definition appIdToFullName :: "AppId \<rightharpoonup> string" where
  "appIdToFullName = [APP_CYGWIN \<mapsto> ''Cygwin (MinGW64 & MSYS2)'', APP_WSL \<mapsto> ''Windows Subsystem for Linux'',
     APP_WINSSH \<mapsto> ''Windows OpenSSH'', APP_SECURECRT \<mapsto> ''SecureCRT'', APP_PAGEANT \<mapsto> ''Pageant'',
     APP_XSHELL \<mapsto> ''XShell'', APP_HYPERV \<mapsto> ''Hyper-V'']"

text \<open>Reading a missing key of a Go map yields the empty string.\<close>

definition AppId_String :: "AppId \<Rightarrow> string" where
  "AppId_String i = (case appIdToName i of None \<Rightarrow> [] | Some n \<Rightarrow> n)"

definition AppId_FullName :: "AppId \<Rightarrow> string" where
  "AppId_FullName i = (case appIdToFullName i of None \<Rightarrow> [] | Some n \<Rightarrow> n)"

subsection \<open>The menu\<close>

record 'h Menu =
  menu_items :: "(string \<times> nat) list"
  handlers :: "AppId \<rightharpoonup> 'h"

definition NewMenu :: "'h Menu" where
  "NewMenu = \<lparr>menu_items = [], handlers = Map.empty\<rparr>"

definition Menu_Register :: "AppId \<Rightarrow> string \<Rightarrow> 'h \<Rightarrow> 'h Menu \<Rightarrow> 'h Menu" where
  "Menu_Register i name handler m =
     m\<lparr>menu_items := menu_items m @ [(name, i)], handlers := (handlers m)(i \<mapsto> handler)\<rparr>"

definition Menu_Handle :: "AppId \<Rightarrow> 'h Menu \<Rightarrow> 'h list" where
  "Menu_Handle i m = (case handlers m i of Some handler \<Rightarrow> [handler] | None \<Rightarrow> [])"

subsection \<open>What the entries do\<close>

datatype click =
    ShowPublicKeys
  | ShowWSL
  | ShowHyperV
  | CheckHyperV
  | ShowCygwin
  | ShowPipe
  | ShowSecureCRT

datatype ui =
    Box string string nat
  | Clip string
  | RunElevated string

definition MB_ICONWARNING :: nat where "MB_ICONWARNING = 0x30"
definition MB_ICONERROR :: nat where "MB_ICONERROR = 0x10"
definition MB_ICONINFORMATION :: nat where "MB_ICONINFORMATION = 0x40"

text \<open>A box with text to copy: \<open>ok\<close> is whether the user pressed OK.\<close>

definition offer :: "string \<Rightarrow> string \<Rightarrow> bool \<Rightarrow> ui list" where
  "offer title text ok = Box title text MB_OKCANCEL # (if ok then [Clip text] else [])"

definition not_working :: "AppId \<Rightarrow> ui list" where
  "not_working i = [Box ''Error:'' (AppId_String i @ '' agent doesn't work!'') MB_ICONWARNING]"

definition copy_title :: "AppId \<Rightarrow> string" where
  "copy_title i = AppId_FullName i @ '' (OK to copy):''"

definition WSL_onClick :: "bool \<Rightarrow> string \<Rightarrow> bool \<Rightarrow> ui list" where
  "WSL_onClick running help ok = (if running then offer (copy_title APP_WSL) help ok else not_working APP_WSL)"

definition Cygwin_onClick :: "bool \<Rightarrow> string \<Rightarrow> bool \<Rightarrow> ui list" where
  "Cygwin_onClick running sockfile ok =
     (if running then offer (copy_title APP_CYGWIN) (''export SSH_AUTH_SOCK='' @ [CHR 0x22] @ sockfile @ [CHR 0x22]) ok
      else not_working APP_CYGWIN)"

definition NamedPipe_onClick :: "bool \<Rightarrow> bool \<Rightarrow> ui list" where
  "NamedPipe_onClick running ok =
     (if running then offer (copy_title APP_WINSSH) (''set SSH_AUTH_SOCK='' @ NAMED_PIPE) ok else not_working APP_WINSSH)"

definition NamedPipe_onClickSC :: "bool \<Rightarrow> bool \<Rightarrow> ui list" where
  "NamedPipe_onClickSC running ok =
     (if running then offer (copy_title APP_WINSSH)
        (''setx '' @ [CHR 0x22] @ ''VANDYKE_SSH_AUTH_SOCK'' @ [CHR 0x22] @ '' '' @ [CHR 0x22] @ NAMED_PIPE @ [CHR 0x22]) ok
      else not_working APP_WINSSH)"

text \<open>\<open>elevate\<close> is the error of \<^verbatim>\<open>RunMeElevatedWithArgs\<close>, with its text.\<close>

definition VSock_checkHvService :: "bool \<Rightarrow> bool \<Rightarrow> string option \<Rightarrow> ui list" where
  "VSock_checkHvService hvService ok elevate =
     (if hvService then not_working APP_HYPERV
      else Box (AppId_FullName APP_HYPERV @ '':'') (AppId_String APP_HYPERV @ '' agent is not working! Do you want to enable it?'') MB_OKCANCEL #
        (if ok then RunElevated ''-i'' #
           (case elevate of None \<Rightarrow> [] | Some e \<Rightarrow> [Box ''Install Service Error:'' e MB_ICONERROR])
         else []))"

definition VSock_onClick :: "bool \<Rightarrow> bool \<Rightarrow> string \<Rightarrow> bool \<Rightarrow> string option \<Rightarrow> ui list" where
  "VSock_onClick running hvService help ok elevate =
     (if \<not> running then VSock_checkHvService hvService ok elevate
      else offer (copy_title APP_HYPERV) help ok)"

definition VSock_onCheckClick :: "bool \<Rightarrow> bool \<Rightarrow> bool \<Rightarrow> string option \<Rightarrow> ui list" where
  "VSock_onCheckClick running hvService ok elevate =
     (if \<not> running then VSock_checkHvService hvService ok elevate
      else [Box (AppId_FullName APP_HYPERV @ '':'') (AppId_String APP_HYPERV @ '' agent is working!'') 0])"

text \<open>\<open>show_key\<close> is \<^verbatim>\<open>agent.Key.String\<close>, \<open>err_text\<close> the text of an error.\<close>

definition PubKeyView_text :: "(agent_key \<Rightarrow> string) \<Rightarrow> agent_key list \<Rightarrow> string" where
  "PubKeyView_text show_key ks = (if length ks = 0 then ''No Keys'' else concat (map (\<lambda>k. show_key k @ [CHR 0x0A]) ks))"

definition PubKeyView_onClick ::
  "(agent_key \<Rightarrow> string) \<Rightarrow> (go_error \<Rightarrow> string) \<Rightarrow> 'w agent \<Rightarrow> bool \<Rightarrow> 'w \<Rightarrow> ('w, ui list) act" where
  "PubKeyView_onClick show_key err_text ag ok w =
     and_then (ag_List ag w) (\<lambda>w1 r. case r of
        Fail e \<Rightarrow> Some (w1, Ret [Box ''Error:'' (err_text e) MB_ICONWARNING])
      | Panic m \<Rightarrow> Some (w1, Panic m)
      | Ret ks \<Rightarrow>
          Some (w1, Ret (offer ''Public Keys (OK to copy):'' (PubKeyView_text show_key ks) ok)))"

definition PubKeyView_Run :: "'w agent option \<Rightarrow> 'w agent outcome" where
  "PubKeyView_Run ctxAgent =
     (case ctxAgent of Some ag \<Rightarrow> Ret ag | None \<Rightarrow> Fail (Errorf ''PubKeyView: no agent in context''))"

subsection \<open>Registering the applications\<close>

datatype application = PubKeyView | WSL | VSock | Cygwin | NamedPipe | Pageant | XShell

definition applications :: "application list" where
  "applications = [PubKeyView, WSL, VSock, Cygwin, NamedPipe, Pageant, XShell]"

fun AppId_of :: "application \<Rightarrow> AppId" where
  "AppId_of PubKeyView = APP_PUBKEY"
| "AppId_of WSL = APP_WSL"
| "AppId_of VSock = APP_HYPERV"
| "AppId_of Cygwin = APP_CYGWIN"
| "AppId_of NamedPipe = APP_WINSSH"
| "AppId_of Pageant = APP_PAGEANT"
| "AppId_of XShell = APP_XSHELL"

definition settings_item :: "AppId \<Rightarrow> string" where
  "settings_item i = ''Show '' @ AppId_String i @ '' Settings''"

text \<open>The entries each application registers, in order; \<open>hvSocket\<close> is \<^verbatim>\<open>CheckHvSocket()\<close>.\<close>

definition PubKeyView_Menu :: "(AppId \<times> string \<times> click) list" where
  "PubKeyView_Menu = [(APP_PUBKEY, ''Show Public Keys'', ShowPublicKeys)]"

definition WSL_Menu :: "(AppId \<times> string \<times> click) list" where
  "WSL_Menu = [(APP_WSL, settings_item APP_WSL, ShowWSL)]"

definition VSock_Menu :: "bool \<Rightarrow> (AppId \<times> string \<times> click) list" where
  "VSock_Menu hvSocket =
     (if \<not> hvSocket then []
      else [(APP_WSL2, ''Show WSL2 / Linux On Hyper-V Settings'', ShowHyperV), (APP_HYPERV, ''Check Hyper-V Agent Status'', CheckHyperV)])"

definition Cygwin_Menu :: "(AppId \<times> string \<times> click) list" where
  "Cygwin_Menu = [(APP_CYGWIN, settings_item APP_CYGWIN, ShowCygwin)]"

definition NamedPipe_Menu :: "(AppId \<times> string \<times> click) list" where
  "NamedPipe_Menu = [(APP_WINSSH, settings_item APP_WINSSH, ShowPipe), (APP_SECURECRT, settings_item APP_SECURECRT, ShowSecureCRT)]"

fun Menu_entries :: "bool \<Rightarrow> application \<Rightarrow> (AppId \<times> string \<times> click) list" where
  "Menu_entries hvSocket PubKeyView = PubKeyView_Menu"
| "Menu_entries hvSocket WSL = WSL_Menu"
| "Menu_entries hvSocket VSock = VSock_Menu hvSocket"
| "Menu_entries hvSocket Cygwin = Cygwin_Menu"
| "Menu_entries hvSocket NamedPipe = NamedPipe_Menu"
| "Menu_entries hvSocket Pageant = []"
| "Menu_entries hvSocket XShell = []"

lemmas menu_defs = PubKeyView_Menu_def WSL_Menu_def VSock_Menu_def Cygwin_Menu_def NamedPipe_Menu_def

definition register_all :: "(AppId \<times> string \<times> 'h) list \<Rightarrow> 'h Menu \<Rightarrow> 'h Menu" where
  "register_all es m = fold (\<lambda>(i, name, h). Menu_Register i name h) es m"

definition main_entries :: "bool \<Rightarrow> (AppId \<times> string \<times> click) list" where
  "main_entries hvSocket = concat (map (Menu_entries hvSocket) applications)"

definition main_menu :: "bool \<Rightarrow> click Menu" where
  "main_menu hvSocket = register_all (main_entries hvSocket) NewMenu"

subsection \<open>The event loop and the shutdown\<close>

datatype tray_event = Clicked nat | Balloon | Interrupt

text \<open>The handlers run so far, and whether the loop has gone to \<^verbatim>\<open>cleanup\<close>.\<close>

fun event_loop :: "'h Menu \<Rightarrow> tray_event list \<Rightarrow> 'h list \<times> bool" where
  "event_loop m [] = ([], False)"
| "event_loop m (Clicked i # evs) =
     (if i = MENU_QUIT then ([], True)
      else case event_loop m evs of (hs, fin) \<Rightarrow> (Menu_Handle i m @ hs, fin))"
| "event_loop m (Balloon # evs) = event_loop m evs"
| "event_loop m (Interrupt # evs) = ([], True)"

text \<open>
  Shutdown: the tray icon is removed, the context cancelled, and \<^verbatim>\<open>main\<close> waits for the applications to
  return, at most five seconds. \<open>returns\<close> are the times (in milliseconds after the cancellation) at
  which the applications' \<^verbatim>\<open>Run\<close> returned, \<^const>\<open>None\<close> for one that does not return.
\<close>

definition shutdown_wait :: "nat option list \<Rightarrow> nat" where
  "shutdown_wait returns =
     (if list_all (\<lambda>r. r \<noteq> None) returns then min 5000 (fold (\<lambda>r m. max m (the r)) returns 0) else 5000)"

subsection \<open>Installing the Hyper-V service\<close>

text \<open>
  The registry work of \<open>installService\<close>: opening the parent key, creating the service's key and
  naming it. Only the parent key is closed.
\<close>

datatype reg_event = OpenedServices | CreatedService | NamedService string | ClosedServices

definition install_registry :: "go_error option \<Rightarrow> go_error option \<Rightarrow> go_error option \<Rightarrow> reg_event list \<times> go_error option" where
  "install_registry openErr createErr setErr =
     (case openErr of
        Some e \<Rightarrow> ([], Some e)
      | None \<Rightarrow>
          (case createErr of
             Some e \<Rightarrow> ([OpenedServices, ClosedServices], Some e)
           | None \<Rightarrow>
               (case setErr of
                  Some e \<Rightarrow> ([OpenedServices, CreatedService, ClosedServices], Some e)
                | None \<Rightarrow> ([OpenedServices, CreatedService, NamedService ''KeyBridge'', ClosedServices], None))))"

text \<open>\<open>privErr\<close> is the error of acquiring the restore privilege; the texts of errors come from \<open>err_text\<close>.\<close>

definition installService ::
  "(go_error \<Rightarrow> string) \<Rightarrow> bool \<Rightarrow> string \<Rightarrow> go_error option \<Rightarrow> go_error option \<Rightarrow> reg_event list \<times> go_error option \<Rightarrow> ui list \<times> reg_event list" where
  "installService err_text isAdmin args elevateErr privErr reg =
     (if \<not> isAdmin then
        (RunElevated args # (case elevateErr of None \<Rightarrow> [] | Some e \<Rightarrow> [Box ''Install Service Error:'' (err_text e) MB_ICONERROR]), [])
      else case (case privErr of Some e \<Rightarrow> ([], Some e) | None \<Rightarrow> reg) of
        (evs, Some e) \<Rightarrow> ([Box ''Install Service Error:'' (err_text e) MB_ICONERROR], evs)
      | (evs, None) \<Rightarrow>
          ([Box ''Install Service Success:'' ''Please reboot your computer to take effect!'' MB_ICONINFORMATION], evs))"

subsection \<open>The debug log\<close>

text \<open>
  \<open>initDebugLog\<close>: the environment, and what opening the file and replacing the two standard handles
  answer. Each failure leaves what was done before it.
\<close>

record debug_os =
  kb_debug :: string
  debug_home :: "go_error + string"
  debug_join :: "string \<Rightarrow> string \<Rightarrow> string"
  debug_open :: "string \<Rightarrow> go_error + nat"
  debug_set :: "nat \<Rightarrow> nat \<Rightarrow> go_error option"

datatype std_handle = StdOutput | StdError

datatype debug_event = OpenedLog string nat | SetStd std_handle nat | GoStdout nat | GoStderr nat

definition STD_OUTPUT_HANDLE :: nat where "STD_OUTPUT_HANDLE = 0xFFFFFFF5"
definition STD_ERROR_HANDLE :: nat where "STD_ERROR_HANDLE = 0xFFFFFFF4"

definition initDebugLog :: "debug_os \<Rightarrow> debug_event list" where
  "initDebugLog os =
     (if kb_debug os \<noteq> ''1'' then []
      else case debug_home os of
        Inl e \<Rightarrow> []
      | Inr home \<Rightarrow>
          (let path = debug_join os home ''KB_DEBUG.log'' in
           case debug_open os path of
             Inl e \<Rightarrow> []
           | Inr f \<Rightarrow>
               (case debug_set os STD_OUTPUT_HANDLE f of
                  Some e \<Rightarrow> [OpenedLog path f]
                | None \<Rightarrow>
                    (case debug_set os STD_ERROR_HANDLE f of
                       Some e \<Rightarrow> [OpenedLog path f, SetStd StdOutput f]
                     | None \<Rightarrow> [OpenedLog path f, SetStd StdOutput f, SetStd StdError f, GoStdout f, GoStderr f]))))"

text \<open>The program's own output moves only when both handles of the process have moved.\<close>

lemma initDebugLog_all_or_none:
  "GoStdout f \<in> set (initDebugLog os) \<longleftrightarrow> SetStd StdError f \<in> set (initDebugLog os)"
  "GoStderr f \<in> set (initDebugLog os) \<longleftrightarrow> SetStd StdError f \<in> set (initDebugLog os)"
  by (simp_all add: initDebugLog_def Let_def split: sum.split option.split)

subsection \<open>The tray icon\<close>

definition agentTitle :: string where "agentTitle = ''KeyBridge v1.0.8''"

text \<open>
  \<open>initSystray\<close>: the icon is resource 1; \<open>newNotifier\<close> makes the notifier for a title and an icon. On
  success it is made known to \<^verbatim>\<open>utils.Notify\<close>, whose package variable is the last argument.
\<close>

definition initSystray ::
  "(nat \<Rightarrow> go_error + nat) \<Rightarrow> (string \<Rightarrow> nat \<Rightarrow> go_error + 'n) \<Rightarrow> bool \<Rightarrow> 'n option \<Rightarrow> 'n option \<times> (go_error + 'n)" where
  "initSystray loadIcon newNotifier hv notifier =
     (case loadIcon 1 of
        Inl e \<Rightarrow> (notifier, Inl e)
      | Inr icon \<Rightarrow>
          (let title = agentTitle @ (if hv then '' (Hyper-V)'' else []) in
           case newNotifier title icon of
             Inl e \<Rightarrow> (notifier, Inl e)
           | Inr n \<Rightarrow> (RegisterNotifier n notifier, Inr n)))"

subsection \<open>Choosing the mode and the agent\<close>

record main_os =
  installFlag :: bool
  disableCapiFlag :: bool
  disablePINCacheFlag :: bool
  hvDial :: "hist \<Rightarrow> nat outcome"
  loadIcon :: "nat \<Rightarrow> go_error + nat"
  newNotifier :: "string \<Rightarrow> nat \<Rightarrow> go_error + nat"

datatype 'w startup =
    RunRelay "string list"
  | InstallService
  | TrayError go_error
  | Serving "'w agent" bool

text \<open>
  \<^verbatim>\<open>main\<close> up to its loop. \<open>args\<close> are \<^verbatim>\<open>os.Args\<close>; the flags of the agent mode are given as parsed. The
  host is tried once, to see whether this is a Hyper-V guest; the flag \<^verbatim>\<open>-disable-pin-cache\<close> is
  passed to the CryptoAPI.
\<close>

definition main_start ::
  "main_os \<Rightarrow> (nat \<Rightarrow> ('a capi_world_scheme) agent) \<Rightarrow> ('a capi_world_scheme) agent \<Rightarrow> ssh_api \<Rightarrow> string list \<Rightarrow>
   'a capi_world_scheme \<Rightarrow> 'a capi_world_scheme \<times> ('a capi_world_scheme) startup" where
  "main_start os client ring api args w =
     (if length args > 1 \<and> args ! 1 = ''relay'' then (w, RunRelay (drop 2 args))
      else if installFlag os then (w, InstallService)
      else case (case hvDial os (log w) of
          Ret c \<Rightarrow> (w\<lparr>log := log w @ [HvDial c, HvClose c]\<rparr>, True)
        | _ \<Rightarrow> (w, False)) of (w1, hvClient) \<Rightarrow>
          (case initSystray (loadIcon os) (newNotifier os) hvClient None of
             (notifier, Inl e) \<Rightarrow> (w1, TrayError e)
           | (notifier, Inr n) \<Rightarrow>
               (let dis = SetDisablePINCache (disablePINCacheFlag os) True in
                (w1, if hvClient then Serving (HVAgent (hvDial os) client) True
                     else if disableCapiFlag os then Serving (KeyRingAgent ring) False
                     else Serving (NewWrappedAgent (KeyRingAgent ring) [CAPIAgent api dis]) False))))"

text \<open>
  The message of an application whose \<^verbatim>\<open>Run\<close> failed.
\<close>

definition run_error :: "application \<Rightarrow> string \<Rightarrow> ui" where
  "run_error a err = Box (AppId_String (AppId_of a) @ '' Error:'') err MB_ICONWARNING"

subsection \<open>Properties\<close>

lemma handlers_register_all:
  assumes "distinct (map fst es)"
  shows "handlers (register_all es m) i =
    (case map_of (map (\<lambda>(i, name, h). (i, h)) es) i of Some h \<Rightarrow> Some h | None \<Rightarrow> handlers m i)"
  using assms
proof (induction es arbitrary: m)
  case (Cons e es)
  obtain j name h where e: "e = (j, name, h)" by (cases e)
  have "j \<notin> fst ` set es \<Longrightarrow> map_of (map (\<lambda>(i, name, h). (i, h)) es) j = None"
    by (force simp: map_of_eq_None_iff)
  with Cons e show ?case by (auto simp: register_all_def Menu_Register_def split: option.split)
qed (simp add: register_all_def)

lemma items_register_all: "menu_items (register_all es m) = menu_items m @ map (\<lambda>(i, name, h). (name, i)) es"
  by (induction es arbitrary: m) (auto simp: register_all_def Menu_Register_def)

lemma main_entries_ids: "distinct (map fst (main_entries hvSocket))" "MENU_QUIT \<notin> fst ` set (main_entries hvSocket)"
  by (cases hvSocket; simp add: main_entries_def applications_def menu_defs id_defs)+

text \<open>
  Property C37. The tray menu: no two entries share an id, none has the id of Quit, and clicking the
  entry that shows a given name runs the handler that was registered with it and nothing else.
\<close>

theorem main_menu_dispatch:
  assumes "(i, name, h) \<in> set (main_entries hvSocket)"
  shows "Menu_Handle i (main_menu hvSocket) = [h] \<and> i \<noteq> MENU_QUIT \<and>
    (\<forall>name'. (name', i) \<in> set (menu_items (main_menu hvSocket)) \<longrightarrow> name' = name)"
proof -
  have d: "distinct (map fst (map (\<lambda>(i, name, h). (i, h)) (main_entries hvSocket)))"
    using main_entries_ids(1) by (simp add: comp_def case_prod_unfold)
  then have "map_of (map (\<lambda>(i, name, h). (i, h)) (main_entries hvSocket)) i = Some h"
    using assms by (intro map_of_is_SomeI) force+
  moreover have "(i, b) \<in> set (main_entries hvSocket) \<Longrightarrow> b = (name, h)" for b
    using assms main_entries_ids(1) by (metis eq_key_imp_eq_value)
  moreover have "i \<noteq> MENU_QUIT" using assms main_entries_ids(2) by force
  ultimately show ?thesis
    by (auto simp: Menu_Handle_def main_menu_def handlers_register_all [OF main_entries_ids(1)] items_register_all NewMenu_def)
qed

theorem main_menu_dispatch_witness: "Menu_Handle APP_WSL2 (main_menu True) = [ShowHyperV]"
  using main_menu_dispatch [of APP_WSL2 "''Show WSL2 / Linux On Hyper-V Settings''" ShowHyperV True]
  by (simp add: main_entries_def applications_def menu_defs)

definition ends :: "tray_event \<Rightarrow> bool" where
  "ends e \<longleftrightarrow> e = Clicked MENU_QUIT \<or> e = Interrupt"

definition handled :: "'h Menu \<Rightarrow> tray_event \<Rightarrow> 'h list" where
  "handled m e = (case e of Clicked i \<Rightarrow> Menu_Handle i m | _ \<Rightarrow> [])"

text \<open>
  The event loop: \<^verbatim>\<open>main\<close> leaves it exactly at the first click on Quit or the first
  interrupt; every click before that is dispatched once, in order, and none after it.
\<close>

theorem event_loop_until_quit:
  "event_loop m evs = (concat (map (handled m) (takeWhile (\<lambda>e. \<not> ends e) evs)), \<not> list_all (\<lambda>e. \<not> ends e) evs)"
  by (induction m evs rule: event_loop.induct) (auto simp: ends_def handled_def)

text \<open>An application without a short name reports its errors under the title \<^verbatim>\<open> Error:\<close>.\<close>

lemma pubkey_error_title: "run_error PubKeyView err = Box '' Error:'' err MB_ICONWARNING"
  by (simp add: run_error_def AppId_String_def appIdToName_def id_defs)

text \<open>The shutdown lasts the full five seconds as soon as one application does not return.\<close>

lemma shutdown_wait_full: "None \<in> set returns \<Longrightarrow> shutdown_wait returns = 5000"
  by (auto simp: shutdown_wait_def list_all_iff)

end
