(* ===== verification/KB_Steps.thy ===== *)
theory KB_Steps
  imports Main
begin

section \<open>Step relations: invariants, fair executions and simulations\<close>

text \<open>
  Goroutines that interleave are modelled as a step relation. This theory has what the component
  theories share about such relations: invariants by rule induction, executions with a fair
  scheduler, and simulations. An execution is an infinite sequence of states; \<open>own\<close> steps are those of
  one goroutine. Weak fairness: a goroutine that is ready from some point on moves again and again;
  strong fairness: one that is ready again and again does.
\<close>

definition weakly_fair :: "('s \<Rightarrow> 's \<Rightarrow> bool) \<Rightarrow> (nat \<Rightarrow> 's) \<Rightarrow> bool" where
  "weakly_fair own f \<longleftrightarrow> ((\<exists>n. \<forall>i \<ge> n. \<exists>t. own (f i) t) \<longrightarrow> (\<forall>n. \<exists>i \<ge> n. own (f i) (f (Suc i))))"

definition strongly_fair :: "('s \<Rightarrow> 's \<Rightarrow> bool) \<Rightarrow> (nat \<Rightarrow> 's) \<Rightarrow> bool" where
  "strongly_fair own f \<longleftrightarrow> ((\<forall>n. \<exists>i \<ge> n. \<exists>t. own (f i) t) \<longrightarrow> (\<forall>n. \<exists>i \<ge> n. own (f i) (f (Suc i))))"

lemma strongly_fair_weakly: "strongly_fair own f \<Longrightarrow> weakly_fair own f"
  unfolding strongly_fair_def weakly_fair_def by (meson linear order_trans)

lemma two_steps: "r a b \<Longrightarrow> r b c \<Longrightarrow> r\<^sup>*\<^sup>* a c"
  by (meson r_into_rtranclp rtranclp.rtrancl_into_rtrancl)

lemma three_steps: "r a b \<Longrightarrow> r b c \<Longrightarrow> r c d \<Longrightarrow> r\<^sup>*\<^sup>* a d"
  by (meson r_into_rtranclp rtranclp.rtrancl_into_rtrancl)

text \<open>An invariant of the reachable states.\<close>

locale step_invariant =
  fixes step :: "'s \<Rightarrow> 's \<Rightarrow> bool" and start :: 's and inv :: "'s \<Rightarrow> bool"
  assumes inv_start: "inv start"
    and inv_step: "step s s' \<Longrightarrow> inv s \<Longrightarrow> inv s'"
begin

lemma inv_from: "step\<^sup>*\<^sup>* s s' \<Longrightarrow> inv s \<Longrightarrow> inv s'"
  by (induction rule: rtranclp_induct) (auto intro: inv_step)

lemma inv_reachable: "step\<^sup>*\<^sup>* start s \<Longrightarrow> inv s"
  using inv_from inv_start by blast

end

text \<open>
  Progress of one goroutine among others. While its goal is \<open>pending\<close>, its own steps bring the measure
  down, no step brings it up again, and whenever it is \<open>ready\<close> (not blocked) it can move.
\<close>

locale fair_progress =
  fixes step own :: "'s \<Rightarrow> 's \<Rightarrow> bool" and goal pending ready :: "'s \<Rightarrow> bool" and left :: "'s \<Rightarrow> nat"
  assumes own_moves: "pending s \<Longrightarrow> \<not> goal s \<Longrightarrow> ready s \<Longrightarrow> \<exists>s'. own s s'"
    and own_descends: "own s s' \<Longrightarrow> pending s \<Longrightarrow> \<not> goal s \<Longrightarrow> goal s' \<or> left s' < left s"
    and step_keeps: "step s s' \<Longrightarrow> pending s \<Longrightarrow> \<not> goal s \<Longrightarrow> goal s' \<or> pending s' \<and> left s' \<le> left s"
begin

lemma pending_until:
  assumes "pending (f 0)" "\<And>i. step (f i) (f (Suc i)) \<or> f (Suc i) = f i" "\<And>i. \<not> goal (f i)"
  shows "pending (f i) \<and> left (f (Suc i)) \<le> left (f i)"
proof -
  have keep: "pending (f (Suc i)) \<and> left (f (Suc i)) \<le> left (f i)" if "pending (f i)" for i
    using assms(2) [of i] assms(3) [of "Suc i"] step_keeps [OF _ that assms(3)] that by auto
  have "pending (f i)" by (induction i) (use assms(1) keep in auto)
  with keep show ?thesis by blast
qed

text \<open>A goroutine that keeps moving until it reaches its goal does reach it.\<close>

lemma moving_reaches:
  assumes "pending (f 0)" "\<And>i. step (f i) (f (Suc i)) \<or> f (Suc i) = f i" "\<And>n. \<exists>i \<ge> n. goal (f i) \<or> own (f i) (f (Suc i))"
  shows "\<exists>i. goal (f i)"
proof (rule ccontr)
  assume "\<nexists>i. goal (f i)"
  then have ng: "\<not> goal (f i)" for i by blast
  note p = pending_until [of f, OF assms(1,2) ng]
  have mono: "left (f (i + n)) \<le> left (f i)" for i n
    by (induction n) (use p in \<open>auto intro: order_trans\<close>)
  have "\<exists>j. left (f j) + n \<le> left (f 0)" for n
  proof (induction n)
    case (Suc n)
    then obtain j where j: "left (f j) + n \<le> left (f 0)" by blast
    obtain k where k: "j \<le> k" "own (f k) (f (Suc k))" using assms(3) ng by blast
    have "left (f (Suc k)) < left (f k)" using own_descends [OF k(2)] p ng by blast
    moreover have "left (f k) \<le> left (f j)" using mono [of j "k - j"] k(1) by simp
    ultimately show ?case using j by (intro exI [of _ "Suc k"]) simp
  qed (auto intro: exI [of _ 0])
  from this [of "Suc (left (f 0))"] show False by auto
qed

text \<open>Ready again and again under strong fairness, or ready for good under weak fairness.\<close>

lemma strong_reaches:
  assumes "pending (f 0)" "\<And>i. step (f i) (f (Suc i)) \<or> f (Suc i) = f i" "strongly_fair own f" "\<And>n. \<exists>i \<ge> n. ready (f i)"
  shows "\<exists>i. goal (f i)"
proof (rule ccontr)
  assume "\<nexists>i. goal (f i)"
  then have ng: "\<not> goal (f i)" for i by blast
  have "\<forall>n. \<exists>i \<ge> n. \<exists>t. own (f i) t" using assms(4) own_moves pending_until [of f, OF assms(1,2) ng] ng by meson
  with assms(3) have "\<forall>n. \<exists>i \<ge> n. own (f i) (f (Suc i))" by (simp add: strongly_fair_def)
  with moving_reaches [of f, OF assms(1,2)] ng show False by blast
qed

lemma weak_reaches:
  assumes "pending (f 0)" "\<And>i. step (f i) (f (Suc i)) \<or> f (Suc i) = f i" "weakly_fair own f" "\<And>i. n \<le> i \<Longrightarrow> ready (f i)"
  shows "\<exists>i. goal (f i)"
proof (rule ccontr)
  assume "\<nexists>i. goal (f i)"
  then have ng: "\<not> goal (f i)" for i by blast
  have "\<forall>i \<ge> n. \<exists>t. own (f i) t" using assms(4) own_moves pending_until [of f, OF assms(1,2) ng] ng by blast
  with assms(3) have "\<forall>n. \<exists>i \<ge> n. own (f i) (f (Suc i))" by (auto simp: weakly_fair_def)
  with moving_reaches [of f, OF assms(1,2)] ng show False by blast
qed

end

text \<open>
  Simulation: every step of the detailed relation is matched by steps of the abstract one; so every
  reachable state is related to a reachable abstract state.
\<close>

locale simulation = step_invariant step start inv
  for step :: "'s \<Rightarrow> 's \<Rightarrow> bool" and start :: 's and inv :: "'s \<Rightarrow> bool" +
  fixes astep :: "'a \<Rightarrow> 'a \<Rightarrow> bool" and astart :: 'a and rel :: "'s \<Rightarrow> 'a \<Rightarrow> bool"
  assumes rel_start: "rel start astart"
    and rel_step: "step s s' \<Longrightarrow> inv s \<Longrightarrow> rel s a \<Longrightarrow> \<exists>a'. astep\<^sup>*\<^sup>* a a' \<and> rel s' a'"
begin

lemma rel_reachable: "step\<^sup>*\<^sup>* start s \<Longrightarrow> \<exists>a. astep\<^sup>*\<^sup>* astart a \<and> rel s a"
proof (induction rule: rtranclp_induct)
  case (step s s')
  then obtain a where a: "astep\<^sup>*\<^sup>* astart a" "rel s a" by blast
  from rel_step [OF step(2) inv_reachable [OF step(1)] a(2)] a(1) show ?case
    by (blast intro: rtranclp_trans)
qed (use rel_start in blast)

end

end
