(* ===== verification/Pageant_Exchange.thy ===== *)
theory Pageant_Exchange
  imports App_Transports KB_Steps "HOL-Library.Multiset"
begin

section \<open>The Pageant conversation: window thread, accept loop and handlers together\<close>

text \<open>
  \<^verbatim>\<open>utils/pageant.go\<close>, \<^verbatim>\<open>utils/mmap.go\<close> and \<^verbatim>\<open>app/pageant.go\<close> as one concurrent system. The thread that owns
  the window runs \<^verbatim>\<open>wndProc\<close>, one message at a time; when a message passes all checks it sends the
  request to \<^verbatim>\<open>requestCh\<close> and waits for the response. The goroutine of \<^verbatim>\<open>Pageant.Run\<close> receives requests in
  \<^verbatim>\<open>AcceptCtx\<close> and starts a handler for each; a handler reads, writes and finally closes its
  connection, which sends the response. Channels are unbuffered: a send and the matching receive
  are one step. \<open>requestCh\<close> is made only after the window exists and its message loop runs.
\<close>

record message =
  m_api :: wnd_api
  m_code :: uint32
  m_copyData :: copyDataStruct

text \<open>
  The part of \<^verbatim>\<open>wndProc\<close> before the send: the mapped memory and the request if the message gets there,
  a fault, or nothing to do.
\<close>

definition wnd_asks :: "message \<Rightarrow> (bytes \<times> bytes) access" where
  "wnd_asks msg =
     (if m_code msg \<noteq> WM_COPYDATA then Refused
      else if dwData (m_copyData msg) \<noteq> agentCopydataId then Refused
      else case OpenFileMapping (OpenFileMappingA (m_api msg)) of
        Ret fileMap \<Rightarrow>
          (case mapped_view (m_api msg) fileMap of
             None \<Rightarrow> Refused
           | Some mem \<Rightarrow> (case view_request mem of Refused \<Rightarrow> Refused | Fault \<Rightarrow> Fault | Granted dat \<Rightarrow> Granted (mem, dat)))
      | _ \<Rightarrow> Refused)"

text \<open>
  Where the window thread is: in its message loop, at the send (with whether the channel that it read
  from the field existed), waiting for the response of a handler, or dead by a fault.
\<close>

datatype wnd_thread = Idle | AtSend message bool | AwaitReply message nat | WndDead

text \<open>
  A handler: \<^verbatim>\<open>SSHAgentHandler\<close> lets \<^verbatim>\<open>ServeAgent\<close> read from and write to the connection (it gets it as an
  \<^verbatim>\<open>io.ReadWriter\<close>), as often and as long as that likes; when it has returned the deferred \<^verbatim>\<open>conn.Close()\<close>
  runs, and then \<^verbatim>\<open>wg.Done()\<close>. \<open>h_calls\<close> records the calls on the connection.
\<close>

datatype handler_pc = HServing | HClosing | HReturned | HEnded

record mm_handler =
  h_conn :: memoryMapConn
  h_calls :: "mm_call list"
  h_at :: handler_pc

definition new_handler :: "bytes \<Rightarrow> mm_handler" where
  "new_handler dat = \<lparr>h_conn = new_conn dat, h_calls = [], h_at = HServing\<rparr>"

definition h_ended :: "mm_handler \<Rightarrow> bool" where
  "h_ended h \<longleftrightarrow> h_at h = HEnded"

definition h_call :: "mm_handler \<Rightarrow> mm_call \<Rightarrow> mm_handler" where
  "h_call h c = h\<lparr>h_conn := mm_run (h_conn h) [c], h_calls := h_calls h @ [c]\<rparr>"

record exchange =
  wnd :: wnd_thread
  chan_made :: bool
  acc :: pc
  ctx_done :: bool
  hs :: "mm_handler list"
  answered :: "(message \<times> nat \<times> response) list"

definition exchange_start :: exchange where
  "exchange_start = \<lparr>wnd = Idle, chan_made = False, acc = InAccept, ctx_done = False, hs = [], answered = []\<rparr>"

text \<open>
  A close whose call sent something meets the window thread at its receive; \<open>answered\<close> records the
  responses that were handed over so. A close that sent nothing just goes on.
\<close>

inductive exch_step :: "exchange \<Rightarrow> exchange \<Rightarrow> bool" where
  make_chan: "\<not> chan_made s \<Longrightarrow> exch_step s (s\<lparr>chan_made := True\<rparr>)"
| ctx_cancel: "\<not> ctx_done s \<Longrightarrow> exch_step s (s\<lparr>ctx_done := True\<rparr>)"
| message_asks: "wnd s = Idle \<Longrightarrow> wnd_asks msg = Granted x \<Longrightarrow> exch_step s (s\<lparr>wnd := AtSend msg (chan_made s)\<rparr>)"
| message_faults: "wnd s = Idle \<Longrightarrow> wnd_asks msg = Fault \<Longrightarrow> exch_step s (s\<lparr>wnd := WndDead\<rparr>)"
| accept_request: "acc s = InAccept \<Longrightarrow> chan_made s \<Longrightarrow> wnd s = AtSend msg True \<Longrightarrow> wnd_asks msg = Granted (mem, dat) \<Longrightarrow>
    exch_step s (s\<lparr>wnd := AwaitReply msg (length (hs s)), hs := hs s @ [new_handler dat]\<rparr>)"
| accept_closed: "acc s = InAccept \<Longrightarrow> chan_made s \<Longrightarrow> ctx_done s \<Longrightarrow>
    exch_step s (s\<lparr>acc := on_error Pageant_loop ErrClosedPipe\<rparr>)"
| serve_call: "i < length (hs s) \<Longrightarrow> h_at (hs s ! i) = HServing \<Longrightarrow> c \<noteq> CallClose \<Longrightarrow>
    exch_step s (s\<lparr>hs := (hs s)[i := h_call (hs s ! i) c]\<rparr>)"
| serve_returns: "i < length (hs s) \<Longrightarrow> h_at (hs s ! i) = HServing \<Longrightarrow>
    exch_step s (s\<lparr>hs := (hs s)[i := (hs s ! i)\<lparr>h_at := HClosing\<rparr>]\<rparr>)"
| close_sends: "i < length (hs s) \<Longrightarrow> h_at (hs s ! i) = HClosing \<Longrightarrow> wnd s = AwaitReply msg i \<Longrightarrow>
    sent (h_conn (h_call (hs s ! i) CallClose)) = sent (h_conn (hs s ! i)) @ [r] \<Longrightarrow> wnd_asks msg = Granted (mem, dat) \<Longrightarrow>
    exch_step s (s\<lparr>wnd := if view_reply mem r = Fault then WndDead else Idle,
      hs := (hs s)[i := (h_call (hs s ! i) CallClose)\<lparr>h_at := HReturned\<rparr>], answered := (msg, i, r) # answered s\<rparr>)"
| close_silent: "i < length (hs s) \<Longrightarrow> h_at (hs s ! i) = HClosing \<Longrightarrow>
    sent (h_conn (h_call (hs s ! i) CallClose)) = sent (h_conn (hs s ! i)) \<Longrightarrow>
    exch_step s (s\<lparr>hs := (hs s)[i := (h_call (hs s ! i) CallClose)\<lparr>h_at := HReturned\<rparr>]\<rparr>)"
| handler_end: "i < length (hs s) \<Longrightarrow> h_at (hs s ! i) = HReturned \<Longrightarrow>
    exch_step s (s\<lparr>hs := (hs s)[i := (hs s ! i)\<lparr>h_at := HEnded\<rparr>]\<rparr>)"
| all_ended: "acc s = Waiting r \<Longrightarrow> list_all h_ended (hs s) \<Longrightarrow> exch_step s (s\<lparr>acc := Returned r\<rparr>)"

inductive_cases exch_stepE: "exch_step s s'"

abbreviation exch_reachable :: "exchange \<Rightarrow> bool" where
  "exch_reachable \<equiv> exch_step\<^sup>*\<^sup>* exchange_start"

subsection \<open>The split of the window procedure\<close>

text \<open>
  Running \<^verbatim>\<open>wndProc\<close> in one piece with the response \<open>r\<close> is sending the request and going on with \<open>r\<close>; it
  faults before the send exactly where \<open>wnd_asks\<close> does.
\<close>

lemma wndProc_split:
  assumes "wnd_asks msg = Granted (mem, dat)"
  shows "snd (wndProc ((m_api msg)\<lparr>serve := \<lambda>_. r\<rparr>) (m_code msg) (m_copyData msg)) =
    (case view_reply mem r of Refused \<Rightarrow> Some 0 | Fault \<Rightarrow> None | Granted mem' \<Rightarrow> Some 1)"
  using assms
  by (auto simp: wnd_asks_def wndProc_def handle_mapping_def mapped_view_def handle_view_def
      split: if_splits outcome.splits option.splits prod.splits access.splits)

lemma wnd_asks_iff:
  "AskedAgent dat \<in> set (fst (wndProc (m_api msg) (m_code msg) (m_copyData msg))) \<longleftrightarrow> (\<exists>mem. wnd_asks msg = Granted (mem, dat))"
  by (auto simp: wnd_asks_def wndProc_def handle_mapping_def handle_view_def split: if_splits outcome.splits option.splits prod.splits access.splits)

subsection \<open>The invariant\<close>

lemma mm_run_append: "mm_run m (cs @ ds) = mm_run (mm_run m cs) ds"
  by (induction m cs rule: mm_run.induct) auto

lemma mm_run_data [simp]: "req_data (mm_run m cs) = req_data m"
  by (induction m cs rule: mm_run.induct)
     (auto simp: memoryMapConn_Read_def memoryMapConn_Write_def memoryMapConn_Close_def Let_def)

lemma new_conn_simps [simp]:
  "req_data (new_conn dat) = dat" "\<not> mclosed (new_conn dat)" "sent (new_conn dat) = []" "wbuf (new_conn dat) = []"
  by (simp_all add: new_conn_def)

lemma mm_run_mclosed: "mclosed (mm_run m cs) \<longleftrightarrow> mclosed m \<or> CallClose \<in> set cs"
  by (induction m cs rule: mm_run.induct)
     (auto simp: memoryMapConn_Read_def memoryMapConn_Write_def memoryMapConn_Close_def Let_def)

lemma h_call_simps [simp]:
  "h_at (h_call h c) = h_at h" "req_data (h_conn (h_call h c)) = req_data (h_conn h)" "h_calls (h_call h c) = h_calls h @ [c]"
  by (simp_all add: h_call_def del: mm_run.simps)

text \<open>A handler has made its calls on a connection for its request, and closed it when \<^verbatim>\<open>ServeAgent\<close> had returned.\<close>

definition handler_ok :: "mm_handler \<Rightarrow> bool" where
  "handler_ok h \<longleftrightarrow> (\<exists>dat. h_conn h = mm_run (new_conn dat) (h_calls h)) \<and>
     (CallClose \<in> set (h_calls h) \<longleftrightarrow> h_at h = HReturned \<or> h_at h = HEnded)"

lemma handler_ok_new: "handler_ok (new_handler dat)"
  by (auto simp: handler_ok_def new_handler_def)

lemma handler_ok_closed: "handler_ok h \<Longrightarrow> mclosed (h_conn h) \<longleftrightarrow> h_at h = HReturned \<or> h_at h = HEnded"
  by (auto simp: handler_ok_def mm_run_mclosed)

lemma handler_ok_conn: "\<exists>dat. h_conn h = mm_run (new_conn dat) (h_calls h) \<Longrightarrow> \<exists>dat. h_conn (h_call h c) = mm_run (new_conn dat) (h_calls (h_call h c))"
  by (auto simp: h_call_def mm_run_append simp del: mm_run.simps)

lemma handler_ok_call: "handler_ok h \<Longrightarrow> h_at h = HServing \<Longrightarrow> c \<noteq> CallClose \<Longrightarrow> handler_ok (h_call h c)"
  using handler_ok_conn [of h c] by (auto simp: handler_ok_def)

lemma handler_ok_close: "handler_ok h \<Longrightarrow> handler_ok ((h_call h CallClose)\<lparr>h_at := HReturned\<rparr>)"
  using handler_ok_conn [of h CallClose] by (auto simp: handler_ok_def)

text \<open>The one response of a closed connection is made of what its handler wrote.\<close>

lemma handler_sent:
  assumes "handler_ok h" "mclosed (h_conn h)"
  shows "sent (h_conn h) = [reply_of (written (h_calls h))]"
proof -
  obtain dat where p: "h_conn h = mm_run (new_conn dat) (h_calls h)" using assms(1) by (auto simp: handler_ok_def)
  then have "CallClose \<in> set (h_calls h)" using assms(2) by (simp add: mm_run_mclosed)
  with p mm_run_sent [of "new_conn dat" "h_calls h"] show ?thesis by simp
qed

lemma handler_unsent: "handler_ok h \<Longrightarrow> \<not> mclosed (h_conn h) \<Longrightarrow> sent (h_conn h) = []"
  using memoryMapConn_one_response by (auto simp: handler_ok_def mm_run_mclosed)

lemma handler_closing:
  assumes "handler_ok h" "h_at h = HClosing"
  shows "\<exists>r. sent (h_conn (h_call h CallClose)) = sent (h_conn h) @ [r]"
  using handler_sent [OF handler_ok_close [OF assms(1)]] handler_unsent [OF assms(1)] handler_ok_closed [OF assms(1)] assms
  by (simp add: h_call_def mm_run_mclosed del: mm_run.simps)

definition asks_of :: "message \<Rightarrow> bytes \<Rightarrow> bool" where
  "asks_of msg dat \<longleftrightarrow> (\<exists>mem. wnd_asks msg = Granted (mem, dat))"

definition open_at :: "exchange \<Rightarrow> nat \<Rightarrow> bool" where
  "open_at s i \<longleftrightarrow> i < length (hs s) \<and> \<not> mclosed (h_conn (hs s ! i))"

definition answer_ok :: "exchange \<Rightarrow> message \<times> nat \<times> response \<Rightarrow> bool" where
  "answer_ok s = (\<lambda>(msg, i, r). i < length (hs s) \<and> \<not> open_at s i \<and> sent (h_conn (hs s ! i)) = [r] \<and>
     asks_of msg (req_data (h_conn (hs s ! i))))"

text \<open>
  The window thread waits for the one handler whose connection is open; every answer came from the
  closed connection of a handler of its own, for the request that the message carried.
\<close>

definition exch_inv :: "exchange \<Rightarrow> bool" where
  "exch_inv s \<longleftrightarrow> list_all handler_ok (hs s) \<and>
     (\<forall>i. open_at s i \<longleftrightarrow> (\<exists>msg. wnd s = AwaitReply msg i)) \<and>
     (\<forall>msg i. wnd s = AwaitReply msg i \<longrightarrow> asks_of msg (req_data (h_conn (hs s ! i)))) \<and>
     (\<forall>msg. wnd s = AtSend msg True \<longrightarrow> chan_made s) \<and>
     list_all (answer_ok s) (answered s) \<and>
     distinct (map (fst \<circ> snd) (answered s)) \<and>
     {i. i < length (hs s) \<and> \<not> open_at s i} \<subseteq> set (map (fst \<circ> snd) (answered s))"

lemma exch_inv_handler: "exch_inv s \<Longrightarrow> i < length (hs s) \<Longrightarrow> handler_ok (hs s ! i)"
  by (simp add: exch_inv_def list_all_length)

lemma exch_inv_start: "exch_inv exchange_start"
  by (simp add: exch_inv_def exchange_start_def open_at_def)

text \<open>A handler's own steps that neither close its connection nor answer keep the invariant.\<close>

lemma exch_inv_update:
  assumes "exch_inv s" "i < length (hs s)" "handler_ok h"
    and "req_data (h_conn h) = req_data (h_conn (hs s ! i))" "mclosed (h_conn h) = mclosed (h_conn (hs s ! i))"
    and "sent (h_conn h) = sent (h_conn (hs s ! i))"
  shows "exch_inv (s\<lparr>hs := (hs s)[i := h]\<rparr>)"
proof -
  have "open_at (s\<lparr>hs := (hs s)[i := h]\<rparr>) j = open_at s j" for j
    using assms(2,5) by (auto simp: open_at_def nth_list_update)
  moreover have "req_data (h_conn ((hs s)[i := h] ! j)) = req_data (h_conn (hs s ! j))"
      "sent (h_conn ((hs s)[i := h] ! j)) = sent (h_conn (hs s ! j))" for j
    using assms(2,4,6) by (cases "i = j"; simp)+
  moreover have "list_all handler_ok ((hs s)[i := h])"
    using assms(1,3) set_update_subset_insert [of "hs s" i h] by (auto simp: exch_inv_def list_all_iff)
  ultimately show ?thesis using assms(1) by (auto simp: exch_inv_def answer_ok_def)
qed

text \<open>The hand-over of the response keeps it.\<close>

lemma exch_inv_answer:
  assumes inv: "exch_inv s" and i: "i < length (hs s)" "h_at (hs s ! i) = HClosing" and w: "wnd s = AwaitReply msg i"
    and r: "sent (h_conn (h_call (hs s ! i) CallClose)) = sent (h_conn (hs s ! i)) @ [r]" and w': "w' = Idle \<or> w' = WndDead"
  defines "h \<equiv> (h_call (hs s ! i) CallClose)\<lparr>h_at := HReturned\<rparr>"
  shows "exch_inv (s\<lparr>wnd := w', hs := (hs s)[i := h], answered := (msg, i, r) # answered s\<rparr>)" (is "exch_inv ?s")
proof -
  have ok: "handler_ok (hs s ! i)" by (rule exch_inv_handler [OF inv i(1)])
  have h: "handler_ok h" unfolding h_def by (rule handler_ok_close [OF ok])
  have closed: "mclosed (h_conn h)" using handler_ok_closed [OF h] by (simp add: h_def)
  have data: "req_data (h_conn h) = req_data (h_conn (hs s ! i))" by (simp add: h_def)
  have sent: "sent (h_conn h) = [r]" using r handler_unsent [OF ok] handler_ok_closed [OF ok] i(2) by (simp add: h_def)
  have others: "open_at s j \<longleftrightarrow> j = i" for j using inv w by (auto simp: exch_inv_def)
  have new: "\<not> open_at ?s j" for j
    using others [of j] closed i(1) by (cases "j = i") (simp_all add: open_at_def)
  have "list_all handler_ok (hs ?s)"
    using inv h set_update_subset_insert [of "hs s" i h] by (auto simp: exch_inv_def list_all_iff)
  moreover have "i \<notin> (fst \<circ> snd) ` set (answered s)"
    using inv others by (fastforce simp: exch_inv_def answer_ok_def list_all_iff)
  moreover have "answer_ok ?s a" if a: "answer_ok s a" for a
  proof -
    obtain m j r where j: "a = (m, j, r)" by (cases a)
    with a others [of j] have "j \<noteq> i" by (auto simp: answer_ok_def)
    with a j new [of j] show ?thesis by (simp add: answer_ok_def)
  qed
  moreover have "answer_ok ?s (msg, i, r)"
    using inv i(1) w new [of i] sent data by (simp add: answer_ok_def exch_inv_def)
  moreover have "{j. j < length (hs s)} \<subseteq> insert i (set (map (fst \<circ> snd) (answered s)))"
    using inv others by (auto simp: exch_inv_def)
  ultimately show ?thesis using inv new w' by (auto simp: exch_inv_def list_all_iff)
qed

lemma exch_inv_step:
  assumes "exch_step s s'" "exch_inv s"
  shows "exch_inv s'"
  using assms(1)
proof cases
  case (accept_request msg mem dat)
  let ?s = "s\<lparr>wnd := AwaitReply msg (length (hs s)), hs := hs s @ [new_handler dat]\<rparr>"
  have n: "\<not> open_at s j" for j using assms(2) accept_request by (auto simp: exch_inv_def)
  have "open_at ?s j \<longleftrightarrow> j = length (hs s)" for j
    using n [of j] by (auto simp: open_at_def nth_append new_handler_def less_Suc_eq)
  moreover have "asks_of msg dat" using accept_request by (auto simp: asks_of_def)
  moreover have "h_conn (new_handler dat) = new_conn dat" by (simp add: new_handler_def)
  ultimately show ?thesis
    using assms(2) accept_request handler_ok_new [of dat] n
    by (auto simp: exch_inv_def answer_ok_def list_all_iff nth_append less_Suc_eq)
next
  case (serve_call i c)
  let ?h = "h_call (hs s ! i) c"
  note ok = exch_inv_handler [OF assms(2) serve_call(2)]
  have h: "handler_ok ?h" using ok serve_call by (simp add: handler_ok_call)
  have "\<not> mclosed (h_conn (hs s ! i))" "\<not> mclosed (h_conn ?h)"
    using handler_ok_closed [OF ok] handler_ok_closed [OF h] serve_call(3) by simp_all
  with handler_unsent [OF ok] handler_unsent [OF h] h serve_call show ?thesis
    unfolding serve_call(1) by (intro exch_inv_update [OF assms(2)]) simp_all
next
  case (serve_returns i)
  have "handler_ok ((hs s ! i)\<lparr>h_at := HClosing\<rparr>)"
    using exch_inv_handler [OF assms(2) serve_returns(2)] serve_returns(3) by (simp add: handler_ok_def)
  then show ?thesis unfolding serve_returns(1) using serve_returns(2) by (intro exch_inv_update [OF assms(2)]) simp_all
next
  case (close_sends i msg r mem dat)
  show ?thesis unfolding close_sends(1) by (rule exch_inv_answer [OF assms(2) close_sends(2-5)]) simp
next
  case (close_silent i)
  then show ?thesis using handler_closing [OF exch_inv_handler [OF assms(2) close_silent(2)] close_silent(3)] by simp
next
  case (handler_end i)
  have "handler_ok ((hs s ! i)\<lparr>h_at := HEnded\<rparr>)"
    using exch_inv_handler [OF assms(2) handler_end(2)] handler_end(3) by (simp add: handler_ok_def)
  then show ?thesis unfolding handler_end(1) using handler_end(2) by (intro exch_inv_update [OF assms(2)]) simp_all
qed (use assms(2) in \<open>auto simp: exch_inv_def open_at_def answer_ok_def list_all_iff\<close>)

interpretation exch: step_invariant exch_step exchange_start exch_inv
  by unfold_locales (rule exch_inv_start, erule (1) exch_inv_step)

subsection \<open>Every accepted request is answered\<close>

definition replied :: "message \<Rightarrow> nat \<Rightarrow> exchange \<Rightarrow> bool" where
  "replied msg i s \<longleftrightarrow> (\<exists>r. (msg, i, r) \<in> set (answered s))"

definition awaiting :: "message \<Rightarrow> nat \<Rightarrow> exchange \<Rightarrow> bool" where
  "awaiting msg i s \<longleftrightarrow> exch_inv s \<and> wnd s = AwaitReply msg i"

text \<open>\<^verbatim>\<open>ServeAgent\<close> has returned in handler \<open>i\<close>; and the step of that handler's \<^verbatim>\<open>conn.Close()\<close>.\<close>

definition served :: "nat \<Rightarrow> exchange \<Rightarrow> bool" where
  "served i s \<longleftrightarrow> i < length (hs s) \<and> h_at (hs s ! i) \<noteq> HServing"

definition closes :: "nat \<Rightarrow> exchange \<Rightarrow> exchange \<Rightarrow> bool" where
  "closes i s s' \<longleftrightarrow> exch_step s s' \<and> i < length (hs s) \<and> h_at (hs s ! i) = HClosing \<and> h_at (hs s' ! i) = HReturned"

lemma served_step: "exch_step s s' \<Longrightarrow> served i s \<Longrightarrow> served i s'"
  by (erule exch_stepE) (auto simp: served_def nth_append nth_list_update)

lemma awaiting_close:
  assumes "awaiting msg i s" "served i s"
  shows "\<exists>s'. closes i s s'"
proof -
  have inv: "exch_inv s" and w: "wnd s = AwaitReply msg i" using assms(1) by (simp_all add: awaiting_def)
  have i: "i < length (hs s)" using assms(2) by (simp add: served_def)
  note ok = exch_inv_handler [OF inv i]
  have c: "h_at (hs s ! i) = HClosing"
    using inv w assms(2) handler_ok_closed [OF ok]
    by (cases "h_at (hs s ! i)") (auto simp: exch_inv_def open_at_def served_def)
  obtain r where r: "sent (h_conn (h_call (hs s ! i) CallClose)) = sent (h_conn (hs s ! i)) @ [r]"
    using handler_closing [OF ok c] by blast
  obtain mem where m: "wnd_asks msg = Granted (mem, req_data (h_conn (hs s ! i)))"
    using inv w by (auto simp: exch_inv_def asks_of_def)
  from exch_step.close_sends [OF i c w r m] show ?thesis unfolding closes_def using i c by fastforce
qed

lemma awaiting_step:
  assumes "exch_step s s'" "awaiting msg i s"
  shows "replied msg i s' \<or> awaiting msg i s'"
  using assms(1)
proof cases
  case (close_sends j m r mem dat)
  then show ?thesis using assms(2) by (auto simp: awaiting_def replied_def)
qed (use assms exch_inv_step [OF assms(1)] in \<open>auto simp: awaiting_def\<close>)

text \<open>Closing while the window thread waits hands over the response, unless nothing was sent.\<close>

lemma closes_replies:
  assumes "closes i s s'" "awaiting msg i s"
  shows "replied msg i s'"
proof -
  from assms(1) have st: "exch_step s s'" and i: "i < length (hs s)" "h_at (hs s ! i) = HClosing" "h_at (hs s' ! i) = HReturned"
    by (auto simp: closes_def)
  have inv: "exch_inv s" and w: "wnd s = AwaitReply msg i" using assms(2) by (simp_all add: awaiting_def)
  from st show ?thesis
  proof cases
    case (close_silent j)
    then show ?thesis using handler_closing [OF exch_inv_handler [OF inv close_silent(2)] close_silent(3)] by simp
  qed (use i w in \<open>auto simp: replied_def nth_append nth_list_update split: if_splits\<close>)
qed

interpretation exch_progress: fair_progress exch_step "closes i" "replied msg i" "awaiting msg i" "served i" "\<lambda>s. 0"
  by unfold_locales (auto simp: awaiting_close closes_replies dest: awaiting_step)

lemma served_stays:
  assumes "\<And>j. exch_step (f j) (f (Suc j)) \<or> f (Suc j) = f j" "served i (f n)"
  shows "n \<le> j \<Longrightarrow> served i (f j)"
proof (induction j rule: dec_induct)
  case (step k)
  then show ?case using assms(1) [of k] served_step by auto
qed (rule assms(2))

subsection \<open>The accept loop inside the conversation\<close>

text \<open>
  Forgetting the window thread and the calls of the handlers leaves the accept loop of
  \<open>App_Transports\<close>, with the wait group as the multiset of the handlers that have not ended.
\<close>

definition conn_of :: "mm_handler \<Rightarrow> memoryMapConn" where
  "conn_of h = new_conn (req_data (h_conn h))"

definition loop_view :: "exchange \<Rightarrow> memoryMapConn run_state \<Rightarrow> bool" where
  "loop_view s a \<longleftrightarrow> at a = acc s \<and> cancelled a = ctx_done s \<and> dropped a = [] \<and>
     given a = rev (map conn_of (hs s)) \<and>
     mset (serving a) = mset (map conn_of (filter (\<lambda>h. \<not> h_ended h) (hs s)))"

lemma map_update_same: "i < length xs \<Longrightarrow> f x = f (xs ! i) \<Longrightarrow> map f (xs[i := x]) = map f xs"
  by (metis list_update_id map_update)

lemma filter_update_mset:
  "i < length xs \<Longrightarrow> P (xs ! i) \<Longrightarrow> \<not> P x \<Longrightarrow>
    mset (map f (filter P xs)) = add_mset (f (xs ! i)) (mset (map f (filter P (xs[i := x]))))"
proof (induction xs arbitrary: i)
  case (Cons a xs)
  then show ?case by (cases i) (auto simp del: mset_map mset_filter simp: Cons.IH)
qed simp

lemma filter_update_map:
  "i < length xs \<Longrightarrow> P x = P (xs ! i) \<Longrightarrow> f x = f (xs ! i) \<Longrightarrow> map f (filter P (xs[i := x])) = map f (filter P xs)"
proof (induction xs arbitrary: i)
  case (Cons a xs)
  then show ?case by (cases i) auto
qed simp

lemma loop_view_update:
  assumes "loop_view s a" "i < length (hs s)" "conn_of h = conn_of (hs s ! i)" "h_ended h = h_ended (hs s ! i)"
  shows "loop_view (s\<lparr>hs := (hs s)[i := h]\<rparr>) a"
  using assms map_update_same [of i "hs s" conn_of h] filter_update_map [of i "hs s" "\<lambda>h. \<not> h_ended h" h conn_of]
  by (simp add: loop_view_def del: mset_map mset_filter)

lemma loop_view_drained: "loop_view s a \<Longrightarrow> serving a = [] \<longleftrightarrow> list_all h_ended (hs s)"
proof -
  assume "loop_view s a"
  then have "mset (serving a) = mset (map conn_of (filter (\<lambda>h. \<not> h_ended h) (hs s)))" by (simp only: loop_view_def)
  then have "serving a = [] \<longleftrightarrow> filter (\<lambda>h. \<not> h_ended h) (hs s) = []" by (metis Nil_is_map_conv mset_zero_iff)
  then show ?thesis by (auto simp: filter_empty_conv list_all_iff)
qed

lemma loop_view_step:
  assumes "exch_step s s'" "loop_view s a"
  shows "\<exists>a'. (run_step Pageant_loop)\<^sup>*\<^sup>* a a' \<and> loop_view s' a'"
  using assms(1)
proof cases
  case ctx_cancel
  then show ?thesis
    using assms(2) by (intro exI [of _ "a\<lparr>cancelled := True\<rparr>"]) (auto simp: loop_view_def intro: run_step.cancel)
next
  case (accept_request msg mem dat)
  let ?a = "a\<lparr>at := loop_top Pageant_loop, serving := new_conn dat # serving a, given := new_conn dat # given a\<rparr>"
  have "run_step Pageant_loop a ?a"
    using assms(2) accept_request by (intro run_step.accept_serve) (auto simp: loop_view_def Pageant_loop_def)
  moreover have "loop_view s' ?a"
    using assms(2) accept_request by (simp add: loop_view_def conn_of_def h_ended_def new_handler_def loop_top_def Pageant_loop_def)
  ultimately show ?thesis by blast
next
  case accept_closed
  have "run_step Pageant_loop a (a\<lparr>at := on_error Pageant_loop ErrClosedPipe\<rparr>)"
    using assms(2) accept_closed by (intro run_step.accept_error) (simp add: loop_view_def)
  then show ?thesis using assms(2) accept_closed by (auto simp: loop_view_def)
next
  case (handler_end i)
  let ?c = "conn_of (hs s ! i)" and ?h = "(hs s ! i)\<lparr>h_at := HEnded\<rparr>"
  let ?a = "a\<lparr>serving := remove1 ?c (serving a)\<rparr>"
  have m: "mset (serving a) = add_mset ?c (mset (map conn_of (filter (\<lambda>h. \<not> h_ended h) ((hs s)[i := ?h]))))"
    using assms(2) filter_update_mset [of i "hs s" "\<lambda>h. \<not> h_ended h" ?h conn_of] handler_end(2,3)
    by (simp add: loop_view_def h_ended_def del: mset_map mset_filter)
  then have "?c \<in> set (serving a)" by (metis set_mset_mset union_single_eq_member)
  then have "run_step Pageant_loop a ?a" by (rule run_step.handler_done)
  moreover have "map conn_of ((hs s)[i := ?h]) = map conn_of (hs s)"
    using handler_end by (intro map_update_same) (auto simp: conn_of_def)
  moreover have "mset (remove1 ?c (serving a)) = mset (map conn_of (filter (\<lambda>h. \<not> h_ended h) ((hs s)[i := ?h])))"
    unfolding mset_remove1 m by simp
  ultimately have "run_step Pageant_loop a ?a \<and> loop_view s' ?a"
    using assms(2) by (simp add: handler_end(1) loop_view_def del: mset_map mset_filter)
  then show ?thesis by blast
next
  case (all_ended r)
  have "run_step Pageant_loop a (a\<lparr>at := Returned r\<rparr>)"
    using assms(2) all_ended loop_view_drained [OF assms(2)] by (intro run_step.wait_done) (simp_all add: loop_view_def)
  then show ?thesis using assms(2) all_ended by (auto simp: loop_view_def)
next
  case (serve_call i c)
  then show ?thesis unfolding serve_call(1)
    using assms(2) by (intro exI [of _ a] conjI loop_view_update) (auto simp: conn_of_def h_ended_def)
next
  case (serve_returns i)
  then show ?thesis unfolding serve_returns(1)
    using assms(2) by (intro exI [of _ a] conjI loop_view_update) (auto simp: conn_of_def h_ended_def)
next
  case (close_sends i msg r mem dat)
  then have "loop_view (s\<lparr>hs := (hs s)[i := (h_call (hs s ! i) CallClose)\<lparr>h_at := HReturned\<rparr>]\<rparr>) a"
    using assms(2) by (intro loop_view_update) (auto simp: conn_of_def h_ended_def)
  then show ?thesis unfolding close_sends(1) by (intro exI [of _ a]) (simp add: loop_view_def)
next
  case (close_silent i)
  then show ?thesis unfolding close_silent(1)
    using assms(2) by (intro exI [of _ a] conjI loop_view_update) (auto simp: conn_of_def h_ended_def)
qed (use assms(2) in \<open>auto simp: loop_view_def\<close>)

interpretation exch_sim: simulation exch_step exchange_start exch_inv "run_step Pageant_loop" "run_start Pageant_loop" loop_view
proof
  show "loop_view exchange_start (run_start Pageant_loop)"
    by (simp add: loop_view_def exchange_start_def run_start_def loop_top_def Pageant_loop_def)
qed (rule loop_view_step)

subsection \<open>Properties\<close>

lemma exch_counts:
  assumes "exch_inv s"
  shows "length (answered s) + (case wnd s of AwaitReply msg i \<Rightarrow> 1 | _ \<Rightarrow> 0) = length (hs s)"
proof -
  let ?is = "set (map (fst \<circ> snd) (answered s))"
  note inv = assms [unfolded exch_inv_def]
  have sub: "i < length (hs s) \<and> \<not> open_at s i" if "i \<in> ?is" for i
    using inv that by (fastforce simp: list_all_iff answer_ok_def)
  have idx: "?is = {i. i < length (hs s) \<and> \<not> open_at s i}" using inv sub by blast
  have len: "length (answered s) = card ?is" using inv by (metis distinct_card length_map)
  show ?thesis
  proof (cases "wnd s")
    case (AwaitReply msg i)
    then have o: "open_at s j \<longleftrightarrow> j = i" for j using inv by auto
    then have "?is = {..<length (hs s)} - {i}" "i < length (hs s)" using idx by (auto simp: open_at_def)
    then show ?thesis using len AwaitReply by simp
  qed (use inv idx len in auto)
qed

text \<open>
  A send that cannot complete: on the nil channel, or with nobody left in the accept loop.
\<close>

definition stuck_send :: "message \<Rightarrow> bool \<Rightarrow> exchange \<Rightarrow> bool" where
  "stuck_send msg b s \<longleftrightarrow> wnd s = AtSend msg b \<and> (\<not> b \<or> acc s \<noteq> InAccept)"

lemma stuck_step: "exch_step s t \<Longrightarrow> stuck_send msg b s \<Longrightarrow> stuck_send msg b t"
  by (erule exch_stepE) (auto simp: stuck_send_def)

lemma stuck_stays:
  assumes "exch_step\<^sup>*\<^sup>* s t" "stuck_send msg b s"
  shows "wnd t = AtSend msg b"
proof -
  have "stuck_send msg b t" using assms by (induction rule: rtranclp_induct) (auto intro: stuck_step)
  then show ?thesis by (simp add: stuck_send_def)
qed

text \<open>
  Property C6. The Pageant conversation answers every request it accepts from that request: whatever
  the interleaving of the window thread, the accept loop and the handlers, each response handed to
  the window procedure is for the message whose request the handler worked on and is exactly what
  that handler wrote before it closed the connection; no handler answers twice; and apart from the
  message being served every accepted request has been answered. (A message whose request is never
  accepted gets no answer; see the property on hanging.)
\<close>

theorem pageant_answers:
  assumes "exch_reachable s"
  shows "(\<forall>(msg, i, r) \<in> set (answered s). i < length (hs s) \<and>
      AskedAgent (req_data (h_conn (hs s ! i))) \<in> set (fst (wndProc (m_api msg) (m_code msg) (m_copyData msg))) \<and>
      r = reply_of (written (h_calls (hs s ! i)))) \<and>
    distinct (map (fst \<circ> snd) (answered s)) \<and>
    length (answered s) + (case wnd s of AwaitReply msg i \<Rightarrow> 1 | _ \<Rightarrow> 0) = length (hs s)"
proof -
  note inv = exch.inv_reachable [OF assms]
  have "i < length (hs s) \<and> AskedAgent (req_data (h_conn (hs s ! i))) \<in> set (fst (wndProc (m_api msg) (m_code msg) (m_copyData msg))) \<and>
      r = reply_of (written (h_calls (hs s ! i)))" if "(msg, i, r) \<in> set (answered s)" for msg i r
  proof -
    from that inv have a: "answer_ok s (msg, i, r)" by (auto simp: exch_inv_def list_all_iff)
    then have i: "i < length (hs s)" "mclosed (h_conn (hs s ! i))" "sent (h_conn (hs s ! i)) = [r]"
      "asks_of msg (req_data (h_conn (hs s ! i)))" by (auto simp: answer_ok_def open_at_def)
    then show ?thesis using handler_sent [OF exch_inv_handler [OF inv i(1)]] wnd_asks_iff by (simp add: asks_of_def)
  qed
  with exch_counts [OF inv] inv show ?thesis by (auto simp: exch_inv_def)
qed

text \<open>
  Property C7. Once a Pageant request is accepted and \<^verbatim>\<open>ServeAgent\<close> returns in its handler, its client
  gets an answer, also when nothing was written: in every execution in which the handler's
  \<^verbatim>\<open>conn.Close()\<close> is not postponed forever while it can run (weak fairness), the response is handed
  to the window procedure.
\<close>

theorem pageant_replies:
  assumes "exch_reachable (f 0)" and "wnd (f 0) = AwaitReply msg i"
    and "\<And>j. exch_step (f j) (f (Suc j)) \<or> f (Suc j) = f j"
    and "served i (f n)" and "weakly_fair (closes i) f"
  shows "\<exists>m r. (msg, i, r) \<in> set (answered (f m))"
proof -
  have "awaiting msg i (f 0)" using exch.inv_reachable [OF assms(1)] assms(2) by (simp add: awaiting_def)
  from exch_progress.weak_reaches [OF this assms(3,5) served_stays [OF assms(3,4)]]
  show ?thesis by (simp add: replied_def)
qed

text \<open>
  Property C35. A message that comes too early or too late can hang: if \<^verbatim>\<open>NewPageant\<close> has not yet made
  the channel, or the context has ended, a Pageant message that passes all the checks can bring the
  window procedure to a send that no later step of any goroutine ever completes. Too early, or once
  the accept loop has left, this is not even a matter of scheduling: whenever the message gets to the
  send, it stays there.
\<close>

theorem pageant_hangs:
  assumes "exch_reachable s" and "wnd s = Idle" and "wnd_asks msg = Granted x" and "\<not> chan_made s \<or> ctx_done s"
  shows "(\<exists>t b. exch_step\<^sup>*\<^sup>* s t \<and> (\<forall>u. exch_step\<^sup>*\<^sup>* t u \<longrightarrow> wnd u = AtSend msg b)) \<and>
    (\<not> chan_made s \<or> acc s \<noteq> InAccept \<longrightarrow>
      (\<forall>t b u. exch_step s t \<longrightarrow> wnd t = AtSend msg b \<longrightarrow> exch_step\<^sup>*\<^sup>* t u \<longrightarrow> wnd u = AtSend msg b))"
proof (intro conjI impI allI)
  let ?t = "s\<lparr>wnd := AtSend msg (chan_made s)\<rparr>"
  have s: "exch_step s ?t" by (rule exch_step.message_asks [OF assms(2,3)])
  show "\<exists>t b. exch_step\<^sup>*\<^sup>* s t \<and> (\<forall>u. exch_step\<^sup>*\<^sup>* t u \<longrightarrow> wnd u = AtSend msg b)"
  proof (cases "\<not> chan_made s \<or> acc s \<noteq> InAccept")
    case True
    then have "stuck_send msg (chan_made s) ?t" by (auto simp: stuck_send_def)
    with s show ?thesis by (blast dest: stuck_stays)
  next
    case False
    let ?v = "?t\<lparr>acc := on_error Pageant_loop ErrClosedPipe\<rparr>"
    have "exch_step ?t ?v" using False assms(4) by (intro exch_step.accept_closed) simp_all
    with s have "exch_step\<^sup>*\<^sup>* s ?v" by (rule two_steps)
    moreover have "stuck_send msg (chan_made s) ?v" by (simp add: stuck_send_def Pageant_loop_def)
    ultimately show ?thesis by (blast dest: stuck_stays)
  qed
next
  fix t b u assume "\<not> chan_made s \<or> acc s \<noteq> InAccept" "exch_step s t" "wnd t = AtSend msg b" and u: "exch_step\<^sup>*\<^sup>* t u"
  then have "stuck_send msg b t" using assms(2) by (auto simp: stuck_send_def elim!: exch_stepE)
  with u show "wnd u = AtSend msg b" by (rule stuck_stays)
qed

text \<open>
  Property C10. The conversation refines the accept loop of the Pageant transport: every reachable
  state shows a reachable state of that loop; so when \<^verbatim>\<open>Run\<close> has returned without an error all its
  handlers have ended and every request it had accepted has been answered.
\<close>

theorem pageant_refines_loop:
  assumes "exch_reachable s"
  shows "(\<exists>a. reachable Pageant_loop a \<and> loop_view s a) \<and>
    (acc s = Returned None \<longrightarrow> list_all h_ended (hs s) \<and> length (answered s) = length (hs s))"
proof -
  obtain a where a: "reachable Pageant_loop a" "loop_view s a" using exch_sim.rel_reachable [OF assms] by blast
  have "list_all h_ended (hs s) \<and> length (answered s) = length (hs s)" if r: "acc s = Returned None"
  proof -
    note inv = exch.inv_reachable [OF assms]
    have "serving a = []" using pageant.drained [OF a(1)] a(2) r by (simp add: loop_view_def)
    then have e: "list_all h_ended (hs s)" using loop_view_drained [OF a(2)] by simp
    have "\<not> open_at s i" for i
      using e handler_ok_closed [OF exch_inv_handler [OF inv]] by (auto simp: open_at_def h_ended_def list_all_length)
    then have "wnd s \<noteq> AwaitReply msg i" for msg i using inv by (auto simp: exch_inv_def)
    then show ?thesis using exch_counts [OF inv] e by (cases "wnd s") auto
  qed
  with a show ?thesis by blast
qed

subsection \<open>Witnesses\<close>

definition m_demo :: message where
  "m_demo = \<lparr>m_api = wnd_demo [0, 0, 0, 1, 11, 0], m_code = WM_COPYDATA, m_copyData = cd_demo\<rparr>"

lemma m_demo_asks: "wnd_asks m_demo = Granted ([0, 0, 0, 1, 11, 0], [0, 0, 0, 1, 11])"
  by (simp add: wnd_asks_def m_demo_def cd_demo_def wnd_demo_def OpenFileMapping_def mapped_view_def view_request_def
      GetUserSID_def GetHandleSID_def GetDefaultSID_def agentMaxMsglen_def be_uint32_def)

text \<open>
  The channel is made, a message arrives, its request is accepted, \<^verbatim>\<open>ServeAgent\<close> writes one byte and
  returns, and the handler closes.
\<close>

definition ex_sent :: exchange where
  "ex_sent = exchange_start\<lparr>chan_made := True, wnd := AtSend m_demo True\<rparr>"

definition ex_open :: exchange where
  "ex_open = ex_sent\<lparr>wnd := AwaitReply m_demo 0, hs := [new_handler [0, 0, 0, 1, 11]]\<rparr>"

definition ex_wrote :: exchange where
  "ex_wrote = ex_open\<lparr>hs := [h_call (new_handler [0, 0, 0, 1, 11]) (CallWrite [5])]\<rparr>"

definition ex_served :: exchange where
  "ex_served = ex_wrote\<lparr>hs := [(h_call (new_handler [0, 0, 0, 1, 11]) (CallWrite [5]))\<lparr>h_at := HClosing\<rparr>]\<rparr>"

definition ex_answered :: exchange where
  "ex_answered = ex_served\<lparr>wnd := Idle,
     hs := [(h_call (h_call (new_handler [0, 0, 0, 1, 11]) (CallWrite [5])) CallClose)\<lparr>h_at := HReturned\<rparr>],
     answered := [(m_demo, 0, \<lparr>resp_data = [5], resp_err = None\<rparr>)]\<rparr>"

lemmas ex_defs = ex_answered_def ex_served_def ex_wrote_def ex_open_def ex_sent_def exchange_start_def

lemma ex_sent_reachable: "exch_reachable ex_sent"
proof -
  have "exch_step exchange_start (exchange_start\<lparr>chan_made := True\<rparr>)"
    by (rule exch_step.make_chan) (simp add: exchange_start_def)
  moreover have "exch_step (exchange_start\<lparr>chan_made := True\<rparr>) ex_sent"
    using exch_step.message_asks [OF _ m_demo_asks, of "exchange_start\<lparr>chan_made := True\<rparr>"] by (simp add: ex_defs)
  ultimately show ?thesis by (rule two_steps)
qed

lemma ex_open_reachable: "exch_reachable ex_open"
proof -
  have "exch_step ex_sent ex_open"
    using exch_step.accept_request [of ex_sent m_demo, OF _ _ _ m_demo_asks] by (simp add: ex_defs)
  with ex_sent_reachable show ?thesis by (rule rtranclp.rtrancl_into_rtrancl)
qed

lemma ex_steps: "exch_step ex_open ex_wrote" "exch_step ex_wrote ex_served" "exch_step ex_served ex_answered"
proof -
  show "exch_step ex_open ex_wrote"
    using exch_step.serve_call [of 0 ex_open "CallWrite [5]"] by (simp add: ex_defs new_handler_def)
  show "exch_step ex_wrote ex_served"
    using exch_step.serve_returns [of 0 ex_wrote] by (simp add: ex_defs new_handler_def)
  show "exch_step ex_served ex_answered"
    using exch_step.close_sends [of 0 ex_served m_demo "\<lparr>resp_data = [5], resp_err = None\<rparr>", OF _ _ _ _ m_demo_asks]
    by (simp add: ex_defs new_handler_def h_call_def memoryMapConn_Close_def memoryMapConn_Write_def new_conn_def
        view_reply_def agentMaxMsglen_def)
qed

lemma ex_answered_reachable: "exch_reachable ex_answered"
  using ex_open_reachable three_steps [of exch_step, OF ex_steps] by (rule rtranclp_trans)

theorem pageant_answers_witness:
  "\<lparr>resp_data = [5], resp_err = None\<rparr> = reply_of (written (h_calls (hs ex_answered ! 0)))"
  using pageant_answers [OF ex_answered_reachable] by (simp add: ex_answered_def)

text \<open>An execution: the three steps above, then nothing more.\<close>

definition ex_run :: "nat \<Rightarrow> exchange" where
  "ex_run n = (if n = 0 then ex_open else if n = 1 then ex_wrote else if n = 2 then ex_served else ex_answered)"

lemma ex_run_step: "exch_step (ex_run j) (ex_run (Suc j)) \<or> ex_run (Suc j) = ex_run j"
  using ex_steps by (auto simp: ex_run_def numeral_2_eq_2)

lemma ex_run_fair: "weakly_fair (closes 0) ex_run"
proof -
  have "\<not> (\<exists>t. closes 0 (ex_run i) t)" if "3 \<le> i" for i
    using that by (auto simp: closes_def ex_run_def ex_answered_def)
  moreover have "\<exists>i \<ge> n. 3 \<le> i" for n :: nat by (rule exI [of _ "n + 3"]) simp
  ultimately show ?thesis unfolding weakly_fair_def by meson
qed

theorem pageant_replies_witness: "\<exists>m r. (m_demo, 0, r) \<in> set (answered (ex_run m))"
proof (rule pageant_replies [of ex_run, OF _ _ ex_run_step _ ex_run_fair])
  show "exch_reachable (ex_run 0)" using ex_open_reachable by (simp add: ex_run_def)
  show "wnd (ex_run 0) = AwaitReply m_demo 0" by (simp add: ex_run_def ex_open_def)
  show "served 0 (ex_run 2)" by (simp add: ex_run_def ex_served_def served_def)
qed

text \<open>A client that is faster than \<^verbatim>\<open>NewPageant\<close>.\<close>

theorem pageant_hangs_witness:
  "\<exists>t b. exch_reachable t \<and> (\<forall>u. exch_step\<^sup>*\<^sup>* t u \<longrightarrow> wnd u = AtSend m_demo b)"
  using pageant_hangs [of exchange_start, OF _ _ m_demo_asks] by (simp add: exchange_start_def)

theorem pageant_refines_loop_witness: "\<exists>a. reachable Pageant_loop a \<and> loop_view ex_open a \<and> length (given a) = 1"
  using pageant_refines_loop [OF ex_open_reachable] by (auto simp: loop_view_def ex_open_def)

end
