(* ===== verification/VSock_Watch.thy ===== *)
theory VSock_Watch
  imports App_VSock KB_Steps
begin

section \<open>Watching the virtual machines (\<^verbatim>\<open>utils/processnotify.go\<close> and \<^verbatim>\<open>wsl2Watcher\<close> of \<^verbatim>\<open>app/vsock.go\<close>)\<close>

text \<open>
  Three goroutines: the WMI query sends events to the unbuffered channel \<^verbatim>\<open>events\<close> and its result to
  \<^verbatim>\<open>done\<close> (one slot); \<^verbatim>\<open>dispatch\<close> translates them and sends them to \<^verbatim>\<open>ch\<close> (one slot); the watcher wakes up
  for each of them, for a timeout or for the end of the context, and in every round brings its
  workers up to date with the machines that the process list shows. The query itself is WMI's and
  may end at any time, with or without an error.
\<close>

subsection \<open>Creating the notification\<close>

text \<open>The query text around the name of the process; Go's raw string starts with a newline.\<close>

definition query_head :: string where
  "query_head = [CHR 0x0A] @ ''SELECT * FROM __InstanceOperationEvent'' @ [CHR 0x0A] @ ''WITHIN 1'' @ [CHR 0x0A] @ ''WHERE'' @ [CHR 0x0A] @
     ''TargetInstance ISA '' @ [CHR 0x27] @ ''Win32_Process'' @ [CHR 0x27] @ [CHR 0x0A] @ ''AND TargetInstance.Name='' @ [CHR 0x27]"

definition processEventQuery :: "string \<Rightarrow> string" where
  "processEventQuery name = query_head @ name @ [CHR 0x27]"

text \<open>\<open>newQuery\<close> is \<^verbatim>\<open>wmi.NewNotificationQuery\<close>: the handle of a query, or an error.\<close>

definition NewProcessNotify :: "(string \<Rightarrow> go_error + nat) \<Rightarrow> string \<Rightarrow> go_error + nat" where
  "NewProcessNotify newQuery name = newQuery (processEventQuery name)"

text \<open>The watcher's waiting time in seconds: it polls more often when there are no notifications.\<close>

definition watch_timeout :: "go_error + nat \<Rightarrow> nat" where
  "watch_timeout pn = (case pn of Inl e \<Rightarrow> 15 | Inr q \<Rightarrow> 60)"

subsection \<open>The goroutines\<close>

datatype wmi_thread = NotStarted | Querying | Offering wmiProcessEvent | Result "go_error option" | Gone

datatype disp_thread = DNotStarted | DSelect | DForward ProcessEvent bool | DReturned

datatype watch_thread = InRound | InSelect | WReturned | WCrashed string

record watch_sys =
  wmi :: wmi_thread
  done_ch :: "go_error option list"
  disp :: disp_thread
  ev_ch :: "ProcessEvent list"
  wth :: watch_thread
  wstate :: watcher
  wctx :: bool
  wstop :: bool
  taken :: "wmi_input list"
  woken :: "ProcessEvent list"
  seen :: "string list"

text \<open>
  \<open>taken\<close> records what \<^verbatim>\<open>dispatch\<close> received, \<open>woken\<close> what the watcher received from it, \<open>seen\<close> the
  identifiers that \<^verbatim>\<open>GetVMIDs\<close> has reported so far.
\<close>

definition error_event :: "go_error option \<Rightarrow> ProcessEvent" where
  "error_event err = \<lparr>pe_Type = PROCESS_ERROR, pe_Error = err, pe_TimeStamp = 0, pe_ProcessId = 0, pe_Name = [], pe_CommandLine = []\<rparr>"

text \<open>The watcher up to its loop: with notifications it starts them, without it only polls.\<close>

definition watch_start :: "go_error + nat \<Rightarrow> watch_sys" where
  "watch_start pn = \<lparr>wmi = (case pn of Inl e \<Rightarrow> NotStarted | Inr q \<Rightarrow> Querying), done_ch = [],
     disp = (case pn of Inl e \<Rightarrow> DNotStarted | Inr q \<Rightarrow> DSelect), ev_ch = [], wth = InRound, wstate = watcher_start,
     wctx = False, wstop = False, taken = [], woken = [], seen = []\<rparr>"

record round_os =
  r_query :: "go_error + string list"
  r_order :: "string list \<Rightarrow> string list"
  r_vsock :: vsock_os

text \<open>\<open>ok\<close> limits what the system may answer in a round; the code itself assumes nothing.\<close>

inductive watch_step :: "(round_os \<Rightarrow> bool) \<Rightarrow> watch_sys \<Rightarrow> watch_sys \<Rightarrow> bool" for ok where
  wmi_event: "wmi s = Querying \<Longrightarrow> watch_step ok s (s\<lparr>wmi := Offering ev\<rparr>)"
| wmi_ends: "wmi s = Querying \<Longrightarrow> watch_step ok s (s\<lparr>wmi := Result err\<rparr>)"
| wmi_done: "wmi s = Result err \<Longrightarrow> length (done_ch s) < 1 \<Longrightarrow> watch_step ok s (s\<lparr>wmi := Gone, done_ch := done_ch s @ [err]\<rparr>)"
| disp_event: "disp s = DSelect \<Longrightarrow> wmi s = Offering ev \<Longrightarrow>
    watch_step ok s (s\<lparr>wmi := Querying, disp := DForward (to_event ev) False, taken := taken s @ [Event ev]\<rparr>)"
| disp_done: "disp s = DSelect \<Longrightarrow> done_ch s = err # rest \<Longrightarrow>
    watch_step ok s (s\<lparr>done_ch := rest, disp := DForward (error_event err) True, taken := taken s @ [Done err]\<rparr>)"
| disp_send: "disp s = DForward e fin \<Longrightarrow> length (ev_ch s) < 1 \<Longrightarrow>
    watch_step ok s (s\<lparr>ev_ch := ev_ch s @ [e], disp := if fin then DReturned else DSelect\<rparr>)"
| round: "wth s = InRound \<Longrightarrow> ok os \<Longrightarrow> GetVMIDs (r_order os) (r_query os) = Ret vmids \<Longrightarrow>
    watch_step ok s (s\<lparr>wth := InSelect, wstate := watch_round (r_vsock os) vmids (wstate s), seen := vmids @ seen s\<rparr>)"
| round_panics: "wth s = InRound \<Longrightarrow> ok os \<Longrightarrow> GetVMIDs (r_order os) (r_query os) = Panic m \<Longrightarrow> watch_step ok s (s\<lparr>wth := WCrashed m\<rparr>)"
| select_ctx: "wth s = InSelect \<Longrightarrow> wctx s \<Longrightarrow> watch_step ok s (s\<lparr>wth := WReturned, wstop := True\<rparr>)"
| select_event: "wth s = InSelect \<Longrightarrow> ev_ch s = e # rest \<Longrightarrow>
    watch_step ok s (s\<lparr>wth := InRound, ev_ch := rest, woken := woken s @ [e]\<rparr>)"
| select_timeout: "wth s = InSelect \<Longrightarrow> watch_step ok s (s\<lparr>wth := InRound\<rparr>)"
| ctx_cancelled: "watch_step ok s (s\<lparr>wctx := True\<rparr>)"

inductive_cases watch_stepE: "watch_step ok s s'"

text \<open>
  What \<open>order\<close> may do: Go visits the keys of a map in some order. What the process list looks like
  ordinarily: an argument with a brace is an identifier in braces.
\<close>

definition braced :: "string \<Rightarrow> bool" where
  "braced k \<longleftrightarrow> 2 \<le> length k \<and> hd k = CHR 0x7B \<and> last k = CHR 0x7D"

definition round_ok :: "round_os \<Rightarrow> bool" where
  "round_ok os \<longleftrightarrow> (\<forall>ks. set (r_order os ks) = set ks \<and> (distinct ks \<longrightarrow> distinct (r_order os ks))) \<and>
     (\<forall>lines l k. r_query os = Inr lines \<longrightarrow> l \<in> set lines \<longrightarrow> brace_arg (split_spaces l) = Some k \<longrightarrow> braced k)"

subsection \<open>Identifiers are distinct\<close>

lemma braced_inj: "inj_on (\<lambda>k. take (length k - 2) (drop 1 k)) {k. braced k}"
proof (rule inj_on_inverseI [where g = "\<lambda>v. CHR 0x7B # v @ [CHR 0x7D]"])
  fix k assume "k \<in> {k. braced k}"
  then have k: "2 \<le> length k" "hd k = CHR 0x7B" "last k = CHR 0x7D" by (simp_all add: braced_def)
  then obtain t where t: "k = CHR 0x7B # t" "t \<noteq> []" by (cases k; cases "tl k") auto
  then have "k = CHR 0x7B # butlast t @ [CHR 0x7D]" using k(3) append_butlast_last_id [of t] by simp
  then obtain v where "k = CHR 0x7B # v @ [CHR 0x7D]" by blast
  then show "CHR 0x7B # take (length k - 2) (drop 1 k) @ [CHR 0x7D] = k" by simp
qed

lemma GetVMIDs_distinct:
  assumes "round_ok os" "GetVMIDs (r_order os) (r_query os) = Ret vmids"
  shows "distinct vmids"
proof (cases "r_query os")
  case (Inr lines)
  let ?ks = "remdups (List.map_filter (\<lambda>l. brace_arg (split_spaces l)) lines)"
  have "braced k" if "k \<in> set (r_order os ?ks)" for k
    using assms(1) that Inr by (auto simp: round_ok_def List.map_filter_def)
  then have "inj_on (\<lambda>k. take (length k - 2) (drop 1 k)) (set (r_order os ?ks))"
    using braced_inj by (auto intro: inj_on_subset)
  moreover have "distinct (r_order os ?ks)" using assms(1) by (simp add: round_ok_def)
  ultimately show ?thesis
    using assms(2) Inr by (auto simp: GetVMIDs_def strip_all_result distinct_map split: if_splits)
qed (use assms(2) in \<open>simp add: GetVMIDs_def\<close>)

subsection \<open>Invariants\<close>

text \<open>
  Everything \<^verbatim>\<open>dispatch\<close> has produced is with the watcher, in the slot of \<^verbatim>\<open>ch\<close>, or about to be sent.
\<close>

definition produced :: "watch_sys \<Rightarrow> ProcessEvent list" where
  "produced s = woken s @ ev_ch s @ (case disp s of DForward e fin \<Rightarrow> [e] | _ \<Rightarrow> [])"

definition disp_finishing :: "watch_sys \<Rightarrow> bool" where
  "disp_finishing s \<longleftrightarrow> disp s = DReturned \<or> (\<exists>e. disp s = DForward e True)"

definition watch_inv :: "watch_sys \<Rightarrow> bool" where
  "watch_inv s \<longleftrightarrow> dispatch (taken s) = (produced s, disp_finishing s) \<and> length (ev_ch s) \<le> 1 \<and> length (done_ch s) \<le> 1"

lemma dispatch_snoc:
  assumes "dispatch ins = (es, False)"
  shows "dispatch (ins @ [Event ev]) = (es @ [to_event ev], False)" "dispatch (ins @ [Done err]) = (es @ [error_event err], True)"
  using assms by (induction ins arbitrary: es rule: dispatch.induct) (auto simp: error_event_def split: prod.splits)

lemma watch_inv_step:
  assumes "watch_step ok s s'" "watch_inv s"
  shows "watch_inv s'"
  using assms(1)
proof cases
  case (disp_event ev)
  then show ?thesis
    using assms(2) dispatch_snoc(1) [of "taken s"] by (auto simp: watch_inv_def produced_def disp_finishing_def)
next
  case (disp_done err rest)
  then show ?thesis
    using assms(2) dispatch_snoc(2) [of "taken s"] by (auto simp: watch_inv_def produced_def disp_finishing_def)
next
  case (disp_send e fin)
  then show ?thesis using assms(2) by (auto simp: watch_inv_def produced_def disp_finishing_def)
qed (use assms(2) in \<open>auto simp: watch_inv_def produced_def disp_finishing_def\<close>)

interpretation watch: step_invariant "watch_step ok" "watch_start pn" watch_inv
proof
  show "watch_inv (watch_start pn)"
    by (auto simp: watch_inv_def watch_start_def produced_def disp_finishing_def split: sum.splits)
qed (rule watch_inv_step)

text \<open>A report that names no machine twice.\<close>

definition distinct_round :: "round_os \<Rightarrow> bool" where
  "distinct_round os \<longleftrightarrow> (\<forall>vmids. GetVMIDs (r_order os) (r_query os) = Ret vmids \<longrightarrow> distinct vmids)"

lemma round_ok_distinct: "round_ok os \<Longrightarrow> distinct_round os"
  using GetVMIDs_distinct by (simp add: distinct_round_def)

interpretation watch_workers: step_invariant "watch_step distinct_round" "watch_start pn" "\<lambda>s. watcher_inv (wstate s)"
proof
  show "watcher_inv (wstate (watch_start pn))" by (simp add: watch_start_def watcher_inv_def watcher_start_def)
next
  fix s s' assume "watch_step distinct_round s s'" and i: "watcher_inv (wstate s)"
  then show "watcher_inv (wstate s')"
  proof cases
    case (round os vmids)
    with watch_round_inv(1) [OF i, of vmids] show ?thesis by (simp add: distinct_round_def)
  qed (use i in auto)
qed

text \<open>Listeners are opened only for machines that were reported.\<close>

lemma add_workers_live: "set (live (fold (add_worker os) vs s)) \<subseteq> set (live s) \<union> set vs"
proof (induction vs arbitrary: s)
  case (Cons v vs)
  have "set (live (add_worker os v s)) \<subseteq> insert v (set (live s))" by (auto simp: add_worker_step split: sum.splits)
  with Cons [of "add_worker os v s"] show ?case by auto
qed simp

lemma del_workers_live: "set (live (fold del_worker vs s)) \<subseteq> set (live s)"
proof (induction vs arbitrary: s)
  case (Cons v vs)
  have "set (live (del_worker v s)) \<subseteq> set (live s)" using set_remove1_subset [of v "live s"] by (simp add: del_worker_step)
  with Cons [of "del_worker v s"] show ?case by auto
qed simp

lemma watch_round_live: "set (live (watch_round os vmids s)) \<subseteq> set (live s) \<union> set vmids"
  using add_workers_live [of os "filter (\<lambda>v. id_map (lastVMIDs s) v = None) vmids" s]
    del_workers_live [of "filter (\<lambda>v. id_map vmids v = None) (lastVMIDs s)" "fold (add_worker os) (filter (\<lambda>v. id_map (lastVMIDs s) v = None) vmids) s"]
  by (auto simp: watch_round_def vmidDiff_def Let_def simp del: id_map_None)

interpretation watch_seen: step_invariant "watch_step ok" "watch_start pn" "\<lambda>s. set (live (wstate s)) \<subseteq> set (seen s)"
proof
  show "set (live (wstate (watch_start pn))) \<subseteq> set (seen (watch_start pn))" by (simp add: watch_start_def watcher_start_def)
next
  fix s s' assume "watch_step ok s s'" and i: "set (live (wstate s)) \<subseteq> set (seen s)"
  then show "set (live (wstate s')) \<subseteq> set (seen s')"
  proof cases
    case (round os vmids)
    with i watch_round_live [of "r_vsock os" vmids "wstate s"] show ?thesis by auto
  qed (use i in auto)
qed

subsection \<open>Properties\<close>

text \<open>What the watcher is told about an input of \<^verbatim>\<open>dispatch\<close>, field by field.\<close>

definition tells :: "wmi_input \<Rightarrow> ProcessEvent \<Rightarrow> bool" where
  "tells x e \<longleftrightarrow>
     (case x of
        Event ev \<Rightarrow>
          pe_Error e = None \<and> pe_TimeStamp e = TimeStamp ev \<and> pe_ProcessId e = ProcessId ev \<and>
          pe_Name e = Name ev \<and> pe_CommandLine e = CommandLine ev \<and> pe_Type e \<noteq> PROCESS_ERROR \<and>
          (pe_Type e = PROCESS_CREATE \<longleftrightarrow> Class ev = ''__InstanceCreationEvent'') \<and>
          (pe_Type e = PROCESS_DELETE \<longleftrightarrow> Class ev = ''__InstanceDeletionEvent'')
      | Done err \<Rightarrow> pe_Type e = PROCESS_ERROR \<and> pe_Error e = err)"

lemma dispatch_tells:
  assumes "dispatch ins = (es, fin)" "\<forall>i < length ins - 1. \<exists>ev. ins ! i = Event ev"
  shows "list_all2 tells ins es"
  using assms
proof (induction ins arbitrary: es fin rule: dispatch.induct)
  case (2 ev ins)
  obtain es' fin' where d: "dispatch ins = (es', fin')" by (cases "dispatch ins")
  have "\<forall>i < length ins - 1. \<exists>ev. ins ! i = Event ev"
  proof (intro allI impI)
    fix i assume "i < length ins - 1"
    then have "Suc i < length (Event ev # ins) - 1" by simp
    with "2.prems"(2) show "\<exists>ev. ins ! i = Event ev" by fastforce
  qed
  with 2 d show ?case by (auto simp: tells_def to_event_def)
next
  case (3 err ins)
  then have "ins = []" by (cases ins) auto
  with 3 show ?case by (auto simp: tells_def)
qed auto

lemma dispatch_finished: "dispatch ins = (es, False) \<Longrightarrow> \<forall>i < length ins. \<exists>ev. ins ! i = Event ev"
proof (induction ins arbitrary: es rule: dispatch.induct)
  case (2 ev ins)
  obtain es' where "dispatch ins = (es', False)" using "2.prems" by (auto split: prod.splits)
  with "2.IH" show ?case by (auto simp: nth_Cons split: nat.splits)
qed auto

text \<open>Only the last input of \<^verbatim>\<open>dispatch\<close> can be the end of the query.\<close>

interpretation watch_done: step_invariant "watch_step ok" "watch_start pn"
  "\<lambda>s. watch_inv s \<and> (\<forall>i < length (taken s) - 1. \<exists>ev. taken s ! i = Event ev)"
proof
  show "watch_inv (watch_start pn) \<and> (\<forall>i < length (taken (watch_start pn)) - 1. \<exists>ev. taken (watch_start pn) ! i = Event ev)"
    using watch.inv_start by (simp add: watch_start_def)
next
  fix s s' assume st: "watch_step ok s s'" and i: "watch_inv s \<and> (\<forall>i < length (taken s) - 1. \<exists>ev. taken s ! i = Event ev)"
  have "\<forall>i < length (taken s) . \<exists>ev. taken s ! i = Event ev" if "disp s = DSelect"
    using i dispatch_finished [of "taken s"] that by (simp add: watch_inv_def disp_finishing_def)
  with st i have "\<forall>i < length (taken s') - 1. \<exists>ev. taken s' ! i = Event ev"
    by cases (auto simp: nth_append)
  with watch.inv_step [OF st] i show "watch_inv s' \<and> (\<forall>i < length (taken s') - 1. \<exists>ev. taken s' ! i = Event ev)" by blast
qed

text \<open>
  Property C18. Notifications about processes: whatever the interleaving of WMI, \<^verbatim>\<open>dispatch\<close> and the
  watcher, the events that the watcher has received, followed by the one in the slot of the channel
  and the one that \<^verbatim>\<open>dispatch\<close> is about to send, tell one by one and in order what \<^verbatim>\<open>dispatch\<close> took from
  WMI: a creation exactly for an event of that class, a deletion likewise, the process as WMI named
  it, and an error only for the end of the query, which is the last thing told.
\<close>

theorem process_events_in_order:
  assumes "(watch_step ok)\<^sup>*\<^sup>* (watch_start pn) s"
  shows "list_all2 tells (taken s) (woken s @ ev_ch s @ (case disp s of DForward e fin \<Rightarrow> [e] | _ \<Rightarrow> [])) \<and>
    length (ev_ch s) \<le> 1 \<and> (\<forall>i < length (taken s) - 1. \<exists>ev. taken s ! i = Event ev)"
proof -
  note i = watch_done.inv_reachable [OF assms]
  have "list_all2 tells (taken s) (produced s)" using i dispatch_tells by (auto simp: watch_inv_def)
  with i show ?thesis by (simp add: watch_inv_def produced_def)
qed

text \<open>
  Property C19. The listeners for virtual machines under every interleaving: as long as no report of
  \<^verbatim>\<open>GetVMIDs\<close> names an identifier twice (\<open>round_ok_distinct\<close>: so it is when the identifiers stand in
  braces on the command lines; \<open>watcher_two_listeners\<close> shows what happens otherwise), the watcher has
  at most one listener per machine at every moment, and only for machines of its last report.
\<close>

theorem watcher_one_listener:
  assumes "(watch_step distinct_round)\<^sup>*\<^sup>* (watch_start pn) s"
  shows "distinct (live (wstate s)) \<and> set (live (wstate s)) = dom (workers (wstate s)) \<and>
    set (live (wstate s)) \<subseteq> set (lastVMIDs (wstate s))"
  using watch_workers.inv_reachable [OF assms] by (simp add: watcher_inv_def)

text \<open>
  Once the watcher has returned, an event that does not fit into the channel blocks \<^verbatim>\<open>dispatch\<close> for good.
\<close>

lemma dispatch_left_behind:
  assumes "wth s = WReturned" "ev_ch s \<noteq> []" "disp s = DForward e fin" "(watch_step ok)\<^sup>*\<^sup>* s t"
  shows "disp t = DForward e fin \<and> wth t = WReturned"
proof -
  have "wth t = WReturned \<and> ev_ch t \<noteq> [] \<and> disp t = DForward e fin"
    using assms(4)
  proof (induction rule: rtranclp_induct)
    case (step t u)
    from step(2) show ?case by cases (use step(3) in auto)
  qed (use assms in auto)
  then show ?thesis by simp
qed

text \<open>
  Without the braces the invariant fails: two arguments can lose their ends to the same identifier,
  and the watcher then opens two listeners and forgets one of them.
\<close>

definition odd_round :: round_os where
  "odd_round = \<lparr>r_query = Inr [[CHR 0x7B, CHR ''a'', CHR 0x7D], [CHR ''x'', CHR ''a'', CHR 0x7B]], r_order = (\<lambda>ks. ks),
     r_vsock = \<lparr>GUIDFromString = (\<lambda>v. None), ListenHvsock = (\<lambda>v. Inr 1)\<rparr>\<rparr>"

lemma odd_round_doubles: "GetVMIDs (r_order odd_round) (r_query odd_round) = Ret [''a'', ''a'']"
  by (simp add: GetVMIDs_def odd_round_def List.map_filter_def brace_arg_def strip_ends_def)

lemma watcher_two_listeners: "live (watch_round (r_vsock odd_round) [''a'', ''a''] watcher_start) = [''a'', ''a'']"
  by (simp add: watch_round_def vmidDiff_def watcher_start_def odd_round_def add_worker_def newVSockWorker_def id_map_def Let_def)

subsection \<open>Witnesses\<close>

definition demo_round :: round_os where
  "demo_round = \<lparr>r_query = Inr [[CHR 0x7B, CHR ''a'', CHR 0x7D]], r_order = (\<lambda>ks. ks),
     r_vsock = \<lparr>GUIDFromString = (\<lambda>v. None), ListenHvsock = (\<lambda>v. Inr 1)\<rparr>\<rparr>"

lemma demo_round_ok: "round_ok demo_round" "GetVMIDs (r_order demo_round) (r_query demo_round) = Ret [''a'']"
  by (auto simp: round_ok_def demo_round_def braced_def GetVMIDs_def List.map_filter_def brace_arg_def strip_ends_def)

theorem process_events_in_order_witness:
  "\<exists>s ev. (watch_step (\<lambda>os. True))\<^sup>*\<^sup>* (watch_start (Inr 1)) s \<and> taken s = [Event ev, Done None] \<and> length (ev_ch s) = 1 \<and>
     tells (Event ev) (hd (ev_ch s)) \<and> pe_Type (hd (ev_ch s)) = PROCESS_DELETE"
proof -
  let ?init = "watch_start (Inr 1)" and ?st = "watch_step (\<lambda>os. True)"
  let ?ev = "\<lparr>TimeStamp = 1, Class = ''__InstanceDeletionEvent'', ProcessId = 7, Name = ''wslhost.exe'', CommandLine = ''x''\<rparr>"
  let ?a = "?init\<lparr>wmi := Offering ?ev\<rparr>"
  let ?b = "?init\<lparr>disp := DForward (to_event ?ev) False, taken := [Event ?ev]\<rparr>"
  let ?c = "?init\<lparr>disp := DSelect, taken := [Event ?ev], ev_ch := [to_event ?ev]\<rparr>"
  let ?d = "?c\<lparr>wmi := Result None\<rparr>" and ?e = "?c\<lparr>wmi := Gone, done_ch := [None]\<rparr>"
  let ?f = "?c\<lparr>wmi := Gone, done_ch := [], disp := DForward (error_event None) True, taken := [Event ?ev, Done None]\<rparr>"
  have "?st ?init ?a" by (rule watch_step.wmi_event) (simp add: watch_start_def)
  moreover have "?st ?a ?b" using watch_step.disp_event [of ?a ?ev] by (simp add: watch_start_def)
  moreover have "?st ?b ?c" using watch_step.disp_send [of ?b "to_event ?ev" False] by (simp add: watch_start_def)
  ultimately have 1: "?st\<^sup>*\<^sup>* ?init ?c" by (rule three_steps)
  have "?st ?c ?d" by (rule watch_step.wmi_ends) (simp add: watch_start_def)
  moreover have "?st ?d ?e" using watch_step.wmi_done [of ?d None] by (simp add: watch_start_def)
  moreover have "?st ?e ?f" using watch_step.disp_done [of ?e None "[]"] by (simp add: watch_start_def)
  ultimately have "?st\<^sup>*\<^sup>* ?c ?f" by (rule three_steps)
  with 1 have r: "?st\<^sup>*\<^sup>* ?init ?f" by (rule rtranclp_trans)
  from process_events_in_order [OF r] have "tells (Event ?ev) (to_event ?ev)" by (simp add: watch_start_def)
  moreover have "pe_Type (to_event ?ev) = PROCESS_DELETE" by (simp add: to_event_def)
  ultimately show ?thesis using r by (intro exI [of _ ?f] exI [of _ ?ev] conjI) simp_all
qed

theorem watcher_one_listener_witness:
  "\<exists>s. (watch_step distinct_round)\<^sup>*\<^sup>* (watch_start (Inl EOF)) s \<and> live (wstate s) = [''a''] \<and> lastVMIDs (wstate s) = [''a''] \<and>
     set (live (wstate s)) = dom (workers (wstate s))"
proof -
  let ?init = "watch_start (Inl EOF)"
  let ?s = "?init\<lparr>wth := InSelect, wstate := watch_round (r_vsock demo_round) [''a''] (wstate ?init), seen := [''a'']\<rparr>"
  have "watch_step distinct_round ?init ?s"
    using watch_step.round [of ?init distinct_round demo_round] demo_round_ok round_ok_distinct by (simp add: watch_start_def)
  then have r: "(watch_step distinct_round)\<^sup>*\<^sup>* ?init ?s" by (rule r_into_rtranclp)
  moreover have "live (wstate ?s) = [''a'']" "lastVMIDs (wstate ?s) = [''a'']"
    by (simp_all add: watch_start_def watch_round_def vmidDiff_def watcher_start_def demo_round_def add_worker_def newVSockWorker_def id_map_def Let_def)
  ultimately show ?thesis using watcher_one_listener [OF r] by (intro exI [of _ ?s]) simp
qed

end
