(* ===== verification/Main_Process.thy ===== *)
theory Main_Process
  imports App_Main Pageant_Exchange VSock_Watch
begin

section \<open>The running program (\<^verbatim>\<open>main.go\<close> with everything it starts)\<close>

text \<open>
  \<^verbatim>\<open>main\<close> in agent mode as one system: the goroutine of \<^verbatim>\<open>main\<close> (registering and starting the applications,
  the tray, the event loop, the shutdown), one goroutine per application with its accept loop and
  handlers, the Pageant conversation, the watcher of virtual machines, the goroutine that waits for
  the wait group, and the agent that all handlers share. Steps of the parts interleave freely; a
  panic in any goroutine, and a fault in the window procedure, ends the process. A call of the wrapped
  agent is a sequence of calls of its components; a call of the smart-card agent holds that agent's
  mutex from its beginning to its end, which may never come (the enumeration of certificates can run
  on, a PIN dialog can stay open), and takes effect at its end.
\<close>

subsection \<open>What the program runs on\<close>

record env =
  e_hvClient :: bool
  e_disableCapi :: bool
  e_disablePINCache :: bool
  e_ring :: "capi_world agent"
  e_dial :: "hist \<Rightarrow> nat outcome"
  e_client :: "nat \<Rightarrow> capi_world agent"
  e_card :: ssh_api
  e_text :: "go_error \<Rightarrow> string"
  e_key :: "agent_key \<Rightarrow> string"
  e_trayAdd :: "go_error option"
  e_pipe :: "go_error option"
  e_listen :: listen_os
  e_peer :: "conn \<Rightarrow> owner_api"
  e_cygwin :: cygwin_os
  e_files :: "string \<rightharpoonup> string"
  e_pid :: nat
  e_pageant :: new_api
  e_xlisten :: "go_error + nat"
  e_xwin1 :: new_api
  e_xwin2 :: new_api
  e_cookie :: string
  e_unmarshal :: "bytes \<Rightarrow> go_error + initAgentMsg"
  e_marshal :: "uint32 \<Rightarrow> bytes"
  e_hvSocket :: bool
  e_hvService :: bool
  e_hvListen :: "go_error option"
  e_wmi :: "string \<Rightarrow> go_error + nat"
  e_world :: capi_world

text \<open>
  The agents that answer requests, the agent that is put together from them, and those of them that an
  operation reaches (the wrapped agent passes everything but listing and signing to its first one).
\<close>

datatype part = Ring | Card | Host

fun agent_of :: "env \<Rightarrow> part \<Rightarrow> capi_world agent" where
  "agent_of e Ring = KeyRingAgent (e_ring e)"
| "agent_of e Card = CAPIAgent (e_card e) (e_disablePINCache e)"
| "agent_of e Host = HVAgent (e_dial e) (e_client e)"

definition components :: "env \<Rightarrow> part list" where
  "components e = (if e_hvClient e then [Host] else if e_disableCapi e then [Ring] else [Ring, Card])"

definition main_agent :: "env \<Rightarrow> capi_world agent" where
  "main_agent e =
     (if e_hvClient e then HVAgent (e_dial e) (e_client e)
      else if e_disableCapi e then KeyRingAgent (e_ring e)
      else NewWrappedAgent (KeyRingAgent (e_ring e)) [CAPIAgent (e_card e) (e_disablePINCache e)])"

definition targets :: "env \<Rightarrow> agent_op \<Rightarrow> part list" where
  "targets e op = (case op of OpList \<Rightarrow> components e | OpSign key dat flags \<Rightarrow> components e | _ \<Rightarrow> take 1 (components e))"

definition no_card :: "env \<Rightarrow> bool" where
  "no_card e \<longleftrightarrow> e_hvClient e \<or> e_disableCapi e"

text \<open>What \<^verbatim>\<open>main\<close> settles before it starts the applications: the choice of the agent, and the calls made so far.\<close>

definition follows_start :: "env \<Rightarrow> main_os \<Rightarrow> bool \<Rightarrow> capi_world \<Rightarrow> bool" where
  "follows_start e os hv w \<longleftrightarrow> e_hvClient e = hv \<and> e_disableCapi e = disableCapiFlag os \<and> e_disablePINCache e = disablePINCacheFlag os \<and>
     e_dial e = hvDial os \<and> e_world e = w"

lemma main_start_agent:
  assumes "main_start os (e_client e) (e_ring e) (e_card e) args w = (w1, Serving ag hv)" "follows_start e os hv w1"
  shows "ag = main_agent e"
  using assms
  by (auto simp: main_start_def main_agent_def follows_start_def SetDisablePINCache_def refless_def Let_def
      split: if_splits outcome.splits sum.splits prod.splits)

lemma main_start_log:
  assumes "main_start os cl ring api args w = (w1, Serving ag hv)"
  shows "keys w1 = keys w \<and> (\<exists>es. log w1 = log w @ es \<and> list_all refless es)"
  using assms
  by (auto simp: main_start_def SetDisablePINCache_def refless_def Let_def
      split: if_splits outcome.splits sum.splits prod.splits)

lemma main_start_world:
  assumes "main_start os (e_client e) (e_ring e) (e_card e) args w = (w1, Serving ag hv)" "follows_start e os hv w1"
    and "keys w = None" "log w = []"
  shows "keys (e_world e) = None" "list_all refless (log (e_world e))"
proof -
  have "e_world e = w1"
    using assms(2) by (simp add: follows_start_def)
  then show "keys (e_world e) = None" "list_all refless (log (e_world e))"
    using main_start_log [OF assms(1)] assms(3, 4) by auto
qed

subsection \<open>The applications\<close>

text \<open>What the part of \<^verbatim>\<open>Run\<close> before the loop comes to: the end of \<^verbatim>\<open>Run\<close>, the loop, or a panic.\<close>

datatype opened = Stops "go_error option" | Loops | Panics string

definition open_pubkey :: "env \<Rightarrow> opened" where
  "open_pubkey e = (case PubKeyView_Run (Some (main_agent e)) of Ret a \<Rightarrow> Stops None | Fail er \<Rightarrow> Stops (Some er) | Panic m \<Rightarrow> Panics m)"

definition open_wsl :: "env \<Rightarrow> opened" where
  "open_wsl e = (case WSL_Run (e_listen e) (e_peer e) of Inl er \<Rightarrow> Stops (Some er) | Inr x \<Rightarrow> Loops)"

definition open_vsock :: "env \<Rightarrow> opened" where
  "open_vsock e =
     (case VSock_Run (e_hvClient e) (e_hvSocket e) (e_hvService e) (e_hvListen e) :: go_error option + conn transport of
        Inl r \<Rightarrow> Stops r | Inr t \<Rightarrow> Loops)"

definition open_cygwin :: "env \<Rightarrow> opened" where
  "open_cygwin e =
     (case snd (Cygwin_Run (e_listen e) (e_cygwin e) (e_files e) (e_pid e)) of Inl er \<Rightarrow> Stops (Some er) | Inr x \<Rightarrow> Loops)"

definition open_pipe :: "env \<Rightarrow> opened" where
  "open_pipe e =
     (case NamedPipe_Run (e_pipe e) :: conn transport outcome of Ret t \<Rightarrow> Loops | Fail er \<Rightarrow> Stops (Some er) | Panic m \<Rightarrow> Panics m)"

definition open_pageant :: "env \<Rightarrow> opened" where
  "open_pageant e = (case Pageant_Run (e_pageant e) of Ret t \<Rightarrow> Loops | Fail er \<Rightarrow> Stops (Some er) | Panic m \<Rightarrow> Panics m)"

definition open_xshell :: "env \<Rightarrow> opened" where
  "open_xshell e =
     (case XShell_Run (e_unmarshal e) (e_marshal e) (e_xlisten e) (e_xwin1 e) (e_xwin2 e) (e_cookie e) of
        Ret t \<Rightarrow> Loops | Fail er \<Rightarrow> Stops (Some er) | Panic m \<Rightarrow> Panics m)"

fun opened_of :: "env \<Rightarrow> application \<Rightarrow> opened" where
  "opened_of e PubKeyView = open_pubkey e"
| "opened_of e WSL = open_wsl e"
| "opened_of e VSock = open_vsock e"
| "opened_of e Cygwin = open_cygwin e"
| "opened_of e NamedPipe = open_pipe e"
| "opened_of e Pageant = open_pageant e"
| "opened_of e XShell = open_xshell e"

text \<open>The secret in the Cygwin socket file, and whether WSL is served over TCP, as the openings settle them.\<close>

definition cygwin_secret :: "env \<Rightarrow> bytes" where
  "cygwin_secret e = rand_bytes (e_cygwin e)"

definition wsl_fallback :: "env \<Rightarrow> bool" where
  "wsl_fallback e = (case WSL_open (e_listen e) of Inl er \<Rightarrow> False | Inr (fallback, help) \<Rightarrow> fallback)"

definition cookie_bytes :: "env \<Rightarrow> bytes" where
  "cookie_bytes e = map of_char (e_cookie e)"

lemma Cygwin_Run_loop:
  "snd (Cygwin_Run (e_listen e) (e_cygwin e) (e_files e) (e_pid e)) = Inr (t, f) \<Longrightarrow> t = Cygwin_loop (e_pid e) (cygwin_secret e)"
  by (auto simp: Cygwin_Run_def createCygwinSocket_def cygwin_secret_def Let_def split: sum.splits option.splits prod.splits outcome.splits)

lemma WSL_Run_loop: "WSL_Run (e_listen e) (e_peer e) = Inr (t, help) \<Longrightarrow> t = WSL_loop (e_peer e) (wsl_fallback e)"
  by (auto simp: WSL_Run_def wsl_fallback_def split: sum.splits prod.splits)

lemma XShell_Run_loop:
  "XShell_Run (e_unmarshal e) (e_marshal e) (e_xlisten e) (e_xwin1 e) (e_xwin2 e) (e_cookie e) = Ret t \<Longrightarrow>
    t = XShell_loop (e_unmarshal e) (e_marshal e) (cookie_bytes e)"
  by (auto simp: XShell_Run_def cookie_bytes_def split: prod.splits outcome.splits)

text \<open>
  The loops side by side. The workers for virtual machines count their handlers nowhere; \<open>l_wserving\<close> and
  \<open>l_wgiven\<close> list what they are serving and have served, with the machine whose worker accepted it.
\<close>

record loops =
  l_pipe :: "conn run_state"
  l_wsl :: "conn run_state"
  l_cyg :: "conn run_state"
  l_xsh :: "conn run_state"
  l_vs :: "conn run_state"
  l_pag :: exchange
  l_watch :: watch_sys
  l_wserving :: "(string \<times> conn) list"
  l_wgiven :: "(string \<times> conn) list"

definition loops_start :: "env \<Rightarrow> loops" where
  "loops_start e = \<lparr>l_pipe = run_start NamedPipe_loop, l_wsl = run_start (WSL_loop (e_peer e) (wsl_fallback e)),
     l_cyg = run_start (Cygwin_loop (e_pid e) (cygwin_secret e)),
     l_xsh = run_start (XShell_loop (e_unmarshal e) (e_marshal e) (cookie_bytes e)),
     l_vs = run_start VSock_loop, l_pag = exchange_start, l_watch = watch_start (NewProcessNotify (e_wmi e) ''wslhost.exe''),
     l_wserving = [], l_wgiven = []\<rparr>"

text \<open>A step of one application's goroutines; the context is \<^verbatim>\<open>main\<close>'s to cancel.\<close>

inductive loops_step :: "env \<Rightarrow> application \<Rightarrow> loops \<Rightarrow> loops \<Rightarrow> bool" for e where
  pipe_step: "run_step NamedPipe_loop (l_pipe l) u \<Longrightarrow> cancelled u = cancelled (l_pipe l) \<Longrightarrow> loops_step e NamedPipe l (l\<lparr>l_pipe := u\<rparr>)"
| wsl_step: "run_step (WSL_loop (e_peer e) (wsl_fallback e)) (l_wsl l) u \<Longrightarrow> cancelled u = cancelled (l_wsl l) \<Longrightarrow>
    loops_step e WSL l (l\<lparr>l_wsl := u\<rparr>)"
| cyg_step: "run_step (Cygwin_loop (e_pid e) (cygwin_secret e)) (l_cyg l) u \<Longrightarrow> cancelled u = cancelled (l_cyg l) \<Longrightarrow>
    loops_step e Cygwin l (l\<lparr>l_cyg := u\<rparr>)"
| xsh_step: "run_step (XShell_loop (e_unmarshal e) (e_marshal e) (cookie_bytes e)) (l_xsh l) u \<Longrightarrow> cancelled u = cancelled (l_xsh l) \<Longrightarrow>
    loops_step e XShell l (l\<lparr>l_xsh := u\<rparr>)"
| vs_step: "run_step VSock_loop (l_vs l) u \<Longrightarrow> cancelled u = cancelled (l_vs l) \<Longrightarrow> loops_step e VSock l (l\<lparr>l_vs := u\<rparr>)"
| pag_step: "exch_step (l_pag l) x \<Longrightarrow> ctx_done x = ctx_done (l_pag l) \<Longrightarrow> loops_step e Pageant l (l\<lparr>l_pag := x\<rparr>)"
| watch_step: "watch_step (\<lambda>os. True) (l_watch l) y \<Longrightarrow> wctx y = wctx (l_watch l) \<Longrightarrow> loops_step e VSock l (l\<lparr>l_watch := y\<rparr>)"
| worker_accept: "v \<in> set (live (wstate (l_watch l))) \<Longrightarrow> guard vSockWorker_loop c = Serve c' \<Longrightarrow>
    loops_step e VSock l (l\<lparr>l_wserving := (v, c') # l_wserving l, l_wgiven := (v, c') # l_wgiven l\<rparr>)"
| worker_done: "x \<in> set (l_wserving l) \<Longrightarrow> loops_step e VSock l (l\<lparr>l_wserving := remove1 x (l_wserving l)\<rparr>)"

definition loops_cancel :: "loops \<Rightarrow> loops" where
  "loops_cancel l = l\<lparr>l_pipe := (l_pipe l)\<lparr>cancelled := True\<rparr>, l_wsl := (l_wsl l)\<lparr>cancelled := True\<rparr>,
     l_cyg := (l_cyg l)\<lparr>cancelled := True\<rparr>, l_xsh := (l_xsh l)\<lparr>cancelled := True\<rparr>, l_vs := (l_vs l)\<lparr>cancelled := True\<rparr>,
     l_pag := (l_pag l)\<lparr>ctx_done := True\<rparr>, l_watch := (l_watch l)\<lparr>wctx := True\<rparr>\<rparr>"

text \<open>Where an application's \<^verbatim>\<open>Run\<close> stands, whether one of its goroutines has panicked or faulted, and whether it is serving someone.\<close>

fun loop_at :: "application \<Rightarrow> loops \<Rightarrow> pc" where
  "loop_at PubKeyView l = Returned None"
| "loop_at WSL l = at (l_wsl l)"
| "loop_at VSock l = at (l_vs l)"
| "loop_at Cygwin l = at (l_cyg l)"
| "loop_at NamedPipe l = at (l_pipe l)"
| "loop_at Pageant l = acc (l_pag l)"
| "loop_at XShell l = at (l_xsh l)"

definition panicked :: "application \<Rightarrow> loops \<Rightarrow> string option" where
  "panicked a l =
     (case loop_at a l of
        Crashed m \<Rightarrow> Some m
      | _ \<Rightarrow>
          (if a = VSock then (case wth (l_watch l) of WCrashed m \<Rightarrow> Some m | _ \<Rightarrow> None)
           else if a = Pageant \<and> wnd (l_pag l) = WndDead then Some ''unexpected fault address''
           else None))"

fun serves :: "application \<Rightarrow> loops \<Rightarrow> bool" where
  "serves PubKeyView l = False"
| "serves WSL l = (serving (l_wsl l) \<noteq> [])"
| "serves VSock l = (serving (l_vs l) \<noteq> [] \<or> l_wserving l \<noteq> [])"
| "serves Cygwin l = (serving (l_cyg l) \<noteq> [])"
| "serves NamedPipe l = (serving (l_pipe l) \<noteq> [])"
| "serves Pageant l = (\<not> list_all h_ended (hs (l_pag l)))"
| "serves XShell l = (serving (l_xsh l) \<noteq> [])"

text \<open>Through which connection the agent is called, and whether its handler is still in \<^verbatim>\<open>ServeAgent\<close>.\<close>

datatype origin =
    OverPipe conn
  | OverWSL conn
  | OverCygwin conn
  | OverXShell conn
  | OverVSock conn
  | OverWorker string conn
  | OverPageant nat

fun serving_from :: "loops \<Rightarrow> origin \<Rightarrow> bool" where
  "serving_from l (OverPipe c) = (c \<in> set (serving (l_pipe l)))"
| "serving_from l (OverWSL c) = (c \<in> set (serving (l_wsl l)))"
| "serving_from l (OverCygwin c) = (c \<in> set (serving (l_cyg l)))"
| "serving_from l (OverXShell c) = (c \<in> set (serving (l_xsh l)))"
| "serving_from l (OverVSock c) = (c \<in> set (serving (l_vs l)))"
| "serving_from l (OverWorker v c) = ((v, c) \<in> set (l_wserving l))"
| "serving_from l (OverPageant i) = (i < length (hs (l_pag l)) \<and> h_at (hs (l_pag l) ! i) = HServing)"

subsection \<open>The process\<close>

text \<open>Where the goroutine of \<^verbatim>\<open>main\<close> is; after a panic it runs its deferred calls before the process dies.\<close>

datatype main_pc =
    Starting "application list"
  | AddingTray
  | EventLoop
  | Viewing "part list" "agent_key list"
  | Boxed
  | Cleanup
  | AwaitApps
  | Leaving
  | Returning
  | Unwinding string
  | Exited
  | Died string

datatype app_status = Unstarted | Opening | Running | Reporting go_error | Finished "go_error option"

datatype waiter_pc = NoWaiter | WaitGroup | SendDone | WaiterDone

text \<open>\<open>mutex\<close> is the call that holds the mutex of the smart-card agent; \<open>calls\<close> records the calls of the agents.\<close>

record process =
  mpc :: main_pc
  pmenu :: "click Menu"
  status :: "application \<Rightarrow> app_status"
  wg :: nat
  waiter :: waiter_pc
  lps :: loops
  shown :: "ui list"
  ran :: "click list"
  world :: capi_world
  mutex :: "(origin \<times> agent_op) option"
  calls :: "(origin \<times> agent_op) list"

definition process_start :: "env \<Rightarrow> process" where
  "process_start e = \<lparr>mpc = Starting applications, pmenu = NewMenu, status = (\<lambda>a. Unstarted), wg = 0, waiter = NoWaiter,
     lps = loops_start e, shown = [], ran = [], world = e_world e, mutex = None, calls = []\<rparr>"

definition alive :: "process \<Rightarrow> bool" where
  "alive p \<longleftrightarrow> (case mpc p of Exited \<Rightarrow> False | Died m \<Rightarrow> False | _ \<Rightarrow> True)"

text \<open>The deferred \<^verbatim>\<open>cag.Close()\<close> of \<^verbatim>\<open>main\<close>, which exists only when the smart-card agent was built.\<close>

definition deferred_close :: "env \<Rightarrow> capi_world \<Rightarrow> capi_world" where
  "deferred_close e w = (if e_hvClient e \<or> e_disableCapi e then w else fst (CAPIAgent_Close (e_card e) w))"

text \<open>
  A click on an entry of the menu. Its handler runs in the goroutine of \<^verbatim>\<open>main\<close>: the public-key view asks
  the agents one after the other and then, as all the others do, shows boxes until the user has closed
  them. The agent that the view asks is set by its \<^verbatim>\<open>Run\<close>, in another goroutine.
\<close>

definition after_click :: "env \<Rightarrow> (application \<Rightarrow> app_status) \<Rightarrow> click list \<Rightarrow> main_pc" where
  "after_click e st clicked =
     (case clicked of
        [] \<Rightarrow> EventLoop
      | c # cs \<Rightarrow>
          (if c \<noteq> ShowPublicKeys then Boxed
           else if st PubKeyView = Finished None then Viewing (components e) []
           else Unwinding ''invalid memory address or nil pointer dereference''))"

lemma after_click_neq [simp]:
  "after_click e st cs \<noteq> Starting as" "after_click e st cs \<noteq> Exited" "after_click e st cs \<noteq> AwaitApps" "after_click e st cs \<noteq> Leaving"
  "after_click e st cs \<noteq> Returning"
  by (simp_all add: after_click_def split: list.splits)

text \<open>The goroutine of \<^verbatim>\<open>main\<close> can take the mutex of the smart-card agent, where it needs it.\<close>

definition unlocked :: "part \<Rightarrow> process \<Rightarrow> bool" where
  "unlocked part p \<longleftrightarrow> part = Card \<longrightarrow> mutex p = None"

definition can_close :: "env \<Rightarrow> process \<Rightarrow> bool" where
  "can_close e p \<longleftrightarrow> no_card e \<or> mutex p = None"

text \<open>The goroutine of \<^verbatim>\<open>main\<close>, from the first application to the return.\<close>

inductive main_step :: "env \<Rightarrow> process \<Rightarrow> process \<Rightarrow> bool" for e where
  start_app: "mpc p = Starting (a # as) \<Longrightarrow>
    main_step e p (p\<lparr>mpc := Starting as, pmenu := register_all (Menu_entries (e_hvSocket e) a) (pmenu p), wg := wg p + 1,
      status := (status p)(a := Opening)\<rparr>)"
| all_started: "mpc p = Starting [] \<Longrightarrow>
    main_step e p (p\<lparr>mpc := AddingTray, pmenu := (pmenu p)\<lparr>menu_items := menu_items (pmenu p) @ [(''Quit'', MENU_QUIT)]\<rparr>\<rparr>)"
| tray_added: "mpc p = AddingTray \<Longrightarrow> e_trayAdd e = None \<Longrightarrow> main_step e p (p\<lparr>mpc := EventLoop\<rparr>)"
| tray_failed: "mpc p = AddingTray \<Longrightarrow> e_trayAdd e = Some er \<Longrightarrow>
    main_step e p (p\<lparr>mpc := Cleanup, shown := Box ''Error:'' (e_text e er) MB_ICONERROR # shown p\<rparr>)"
| event: "mpc p = EventLoop \<Longrightarrow> event_loop (pmenu p) [ev] = (clicked, fin) \<Longrightarrow>
    main_step e p (p\<lparr>mpc := if fin then Cleanup else after_click e (status p) clicked, ran := ran p @ clicked\<rparr>)"
| view_list: "mpc p = Viewing (part # parts) ks \<Longrightarrow> unlocked part p \<Longrightarrow> ag_List (agent_of e part) (world p) = Some (w, Ret ks') \<Longrightarrow>
    main_step e p (p\<lparr>mpc := Viewing parts (ks @ ks'), world := w\<rparr>)"
| view_fails: "mpc p = Viewing (part # parts) ks \<Longrightarrow> unlocked part p \<Longrightarrow> ag_List (agent_of e part) (world p) = Some (w, Fail er) \<Longrightarrow>
    main_step e p (p\<lparr>mpc := Boxed, world := w, shown := Box ''Error:'' (e_text e er) MB_ICONWARNING # shown p\<rparr>)"
| view_panics: "mpc p = Viewing (part # parts) ks \<Longrightarrow> unlocked part p \<Longrightarrow> ag_List (agent_of e part) (world p) = Some (w, Panic m) \<Longrightarrow>
    main_step e p (p\<lparr>mpc := Unwinding m, world := w\<rparr>)"
| view_shows: "mpc p = Viewing [] ks \<Longrightarrow>
    main_step e p (p\<lparr>mpc := Boxed, shown := rev (offer ''Public Keys (OK to copy):'' (PubKeyView_text (e_key e) ks) ok) @ shown p\<rparr>)"
| user_closes: "mpc p = Boxed \<Longrightarrow> main_step e p (p\<lparr>mpc := EventLoop\<rparr>)"
| cleanup: "mpc p = Cleanup \<Longrightarrow> main_step e p (p\<lparr>mpc := AwaitApps, lps := loops_cancel (lps p), waiter := WaitGroup\<rparr>)"
| timer: "mpc p = AwaitApps \<Longrightarrow> main_step e p (p\<lparr>mpc := Leaving\<rparr>)"
| received: "mpc p = AwaitApps \<Longrightarrow> waiter p = SendDone \<Longrightarrow> main_step e p (p\<lparr>mpc := Leaving, waiter := WaiterDone\<rparr>)"
| leave: "mpc p = Leaving \<Longrightarrow> can_close e p \<Longrightarrow> main_step e p (p\<lparr>mpc := Returning, world := deferred_close e (world p)\<rparr>)"
| exit: "mpc p = Returning \<Longrightarrow> main_step e p (p\<lparr>mpc := Exited\<rparr>)"
| unwind: "mpc p = Unwinding m \<Longrightarrow> can_close e p \<Longrightarrow> main_step e p (p\<lparr>mpc := Died m, world := deferred_close e (world p)\<rparr>)"

text \<open>What the result of an agent's call does to the process: its effects, and its end if the call panicked.\<close>

definition after_call :: "capi_world \<times> string option \<Rightarrow> process \<Rightarrow> process" where
  "after_call res p = p\<lparr>world := fst res, mpc := (case snd res of None \<Rightarrow> mpc p | Some m \<Rightarrow> Died m)\<rparr>"

text \<open>
  The other goroutines. An application whose \<^verbatim>\<open>Run\<close> fails shows a box and is done when the user has
  closed it. A handler that is in a call of the smart-card agent does not end before the call does.
\<close>

inductive bg_step :: "env \<Rightarrow> process \<Rightarrow> process \<Rightarrow> bool" for e where
  open_stops: "alive p \<Longrightarrow> status p a = Opening \<Longrightarrow> opened_of e a = Stops None \<Longrightarrow>
    bg_step e p (p\<lparr>status := (status p)(a := Finished None), wg := wg p - 1\<rparr>)"
| open_fails: "alive p \<Longrightarrow> status p a = Opening \<Longrightarrow> opened_of e a = Stops (Some er) \<Longrightarrow>
    bg_step e p (p\<lparr>status := (status p)(a := Reporting er), shown := run_error a (e_text e er) # shown p\<rparr>)"
| open_loops: "alive p \<Longrightarrow> status p a = Opening \<Longrightarrow> opened_of e a = Loops \<Longrightarrow>
    bg_step e p (p\<lparr>status := (status p)(a := Running)\<rparr>)"
| open_panics: "alive p \<Longrightarrow> status p a = Opening \<Longrightarrow> opened_of e a = Panics m \<Longrightarrow> bg_step e p (p\<lparr>mpc := Died m\<rparr>)"
| app_step: "alive p \<Longrightarrow> opened_of e a = Loops \<Longrightarrow> status p a \<noteq> Unstarted \<Longrightarrow> status p a \<noteq> Opening \<Longrightarrow>
    loops_step e a (lps p) l \<Longrightarrow> (\<And>orig op. mutex p = Some (orig, op) \<Longrightarrow> serving_from (lps p) orig \<Longrightarrow> serving_from l orig) \<Longrightarrow>
    bg_step e p (p\<lparr>lps := l\<rparr>)"
| app_returns: "alive p \<Longrightarrow> status p a = Running \<Longrightarrow> loop_at a (lps p) = Returned None \<Longrightarrow>
    bg_step e p (p\<lparr>status := (status p)(a := Finished None), wg := wg p - 1\<rparr>)"
| app_fails: "alive p \<Longrightarrow> status p a = Running \<Longrightarrow> loop_at a (lps p) = Returned (Some er) \<Longrightarrow>
    bg_step e p (p\<lparr>status := (status p)(a := Reporting er), shown := run_error a (e_text e er) # shown p\<rparr>)"
| app_panics: "alive p \<Longrightarrow> status p a \<noteq> Unstarted \<Longrightarrow> status p a \<noteq> Opening \<Longrightarrow> panicked a (lps p) = Some m \<Longrightarrow> bg_step e p (p\<lparr>mpc := Died m\<rparr>)"
| box_closed: "alive p \<Longrightarrow> status p a = Reporting er \<Longrightarrow>
    bg_step e p (p\<lparr>status := (status p)(a := Finished (Some er)), wg := wg p - 1\<rparr>)"
| group_done: "alive p \<Longrightarrow> waiter p = WaitGroup \<Longrightarrow> wg p = 0 \<Longrightarrow> bg_step e p (p\<lparr>waiter := SendDone\<rparr>)"
| agent_call: "alive p \<Longrightarrow> serving_from (lps p) orig \<Longrightarrow> part \<in> set (targets e op) \<Longrightarrow> part \<noteq> Card \<Longrightarrow>
    agent_result (agent_of e part) op (world p) = Some res \<Longrightarrow>
    bg_step e p (after_call res (p\<lparr>calls := (orig, op) # calls p\<rparr>))"
| card_begin: "alive p \<Longrightarrow> serving_from (lps p) orig \<Longrightarrow> Card \<in> set (targets e op) \<Longrightarrow> mutex p = None \<Longrightarrow>
    bg_step e p (p\<lparr>mutex := Some (orig, op), calls := (orig, op) # calls p\<rparr>)"
| card_end: "alive p \<Longrightarrow> mutex p = Some (orig, op) \<Longrightarrow> agent_result (agent_of e Card) op (world p) = Some res \<Longrightarrow>
    bg_step e p (after_call res (p\<lparr>mutex := None\<rparr>))"

definition process_step :: "env \<Rightarrow> process \<Rightarrow> process \<Rightarrow> bool" where
  "process_step e p q \<longleftrightarrow> main_step e p q \<or> bg_step e p q"

inductive_cases main_stepE: "main_step e p q"
inductive_cases bg_stepE: "bg_step e p q"

abbreviation process_reachable :: "env \<Rightarrow> process \<Rightarrow> bool" where
  "process_reachable e \<equiv> (process_step e)\<^sup>*\<^sup>* (process_start e)"

subsection \<open>Every part behaves as it does alone\<close>

definition loops_ok :: "env \<Rightarrow> loops \<Rightarrow> bool" where
  "loops_ok e l \<longleftrightarrow> reachable NamedPipe_loop (l_pipe l) \<and> reachable (WSL_loop (e_peer e) (wsl_fallback e)) (l_wsl l) \<and>
     reachable (Cygwin_loop (e_pid e) (cygwin_secret e)) (l_cyg l) \<and>
     reachable (XShell_loop (e_unmarshal e) (e_marshal e) (cookie_bytes e)) (l_xsh l) \<and> reachable VSock_loop (l_vs l) \<and>
     exch_reachable (l_pag l) \<and> (watch_step (\<lambda>os. True))\<^sup>*\<^sup>* (watch_start (NewProcessNotify (e_wmi e) ''wslhost.exe'')) (l_watch l) \<and>
     set (l_wserving l) \<subseteq> set (l_wgiven l) \<and> fst ` set (l_wgiven l) \<subseteq> set (seen (l_watch l))"

lemma loops_ok_start: "loops_ok e (loops_start e)"
  by (simp add: loops_ok_def loops_start_def)

lemma seen_mono: "watch_step ok y z \<Longrightarrow> set (seen y) \<subseteq> set (seen z)"
  by (erule watch_stepE) auto

lemma loops_ok_step:
  assumes "loops_step e a l l'" "loops_ok e l"
  shows "loops_ok e l'"
  using assms(1)
proof cases
  case (watch_step y)
  then show ?thesis using assms(2) seen_mono [OF watch_step(3)] by (auto simp: loops_ok_def elim: rtranclp.rtrancl_into_rtrancl)
next
  case (worker_accept v c c')
  then show ?thesis using assms(2) watch_seen.inv_reachable [of "\<lambda>os. True" _ "l_watch l"] by (auto simp: loops_ok_def)
next
  case (worker_done x)
  then show ?thesis using assms(2) set_remove1_subset [of x "l_wserving l"] by (auto simp: loops_ok_def)
qed (use assms(2) in \<open>auto simp: loops_ok_def elim: rtranclp.rtrancl_into_rtrancl\<close>)

lemma loops_ok_cancel:
  assumes "loops_ok e l"
  shows "loops_ok e (loops_cancel l)"
proof -
  have run: "reachable t s \<Longrightarrow> reachable t (s\<lparr>cancelled := True\<rparr>)" for t :: "conn transport" and s
    by (rule rtranclp.rtrancl_into_rtrancl) (auto intro: run_step.cancel)
  have "exch_reachable (x\<lparr>ctx_done := True\<rparr>)" if "exch_reachable x" for x
  proof (cases "ctx_done x")
    case True
    then have "x\<lparr>ctx_done := True\<rparr> = x" by (cases x) simp
    with that show ?thesis by simp
  qed (rule rtranclp.rtrancl_into_rtrancl [OF that exch_step.ctx_cancel])
  moreover have "(watch_step (\<lambda>os. True))\<^sup>*\<^sup>* y (z\<lparr>wctx := True\<rparr>)" if "(watch_step (\<lambda>os. True))\<^sup>*\<^sup>* y z" for y z
    by (rule rtranclp.rtrancl_into_rtrancl [OF that watch_step.ctx_cancelled])
  ultimately show ?thesis using assms run by (simp add: loops_ok_def loops_cancel_def)
qed

interpretation parts: step_invariant "process_step e" "process_start e" "\<lambda>p. loops_ok e (lps p)"
proof
  fix p q assume "process_step e p q" and ok: "loops_ok e (lps p)"
  then consider "main_step e p q" | "bg_step e p q" by (auto simp: process_step_def)
  then show "loops_ok e (lps q)"
  proof cases
    case 1
    then show ?thesis by cases (use ok in \<open>auto simp: loops_ok_cancel\<close>)
  next
    case 2
    then show ?thesis by cases (use ok in \<open>auto intro: loops_ok_step simp: after_call_def\<close>)
  qed
qed (simp add: process_start_def loops_ok_start)

text \<open>Induction over a step of the process without naming the goroutine.\<close>

lemma process_stepE:
  assumes "process_step e p q"
  obtains "main_step e p q" | "bg_step e p q"
  using assms by (auto simp: process_step_def)

subsection \<open>The wait group\<close>

definition active :: "app_status \<Rightarrow> nat" where
  "active st = (case st of Opening \<Rightarrow> 1 | Running \<Rightarrow> 1 | Reporting er \<Rightarrow> 1 | _ \<Rightarrow> 0)"

definition unfinished :: "(application \<Rightarrow> app_status) \<Rightarrow> nat" where
  "unfinished st = (\<Sum>a\<leftarrow>applications. active (st a))"

lemma unfinished_update: "unfinished (st(a := x)) + active (st a) = unfinished st + active x"
  by (cases a) (simp_all add: unfinished_def applications_def)

lemma unfinished_zero: "unfinished st = 0 \<Longrightarrow> active (st a) = 0"
  by (cases a) (simp_all add: unfinished_def applications_def)

lemma unfinished_count: "unfinished st = length (filter (\<lambda>a. active (st a) = 1) applications)"
proof -
  have "active x = (if active x = 1 then 1 else 0)" for x by (simp add: active_def split: app_status.split)
  then have "(\<Sum>a\<leftarrow>as. active (st a)) = length (filter (\<lambda>a. active (st a) = 1) as)" for as
    by (induction as) (auto, metis add_cancel_left_left)
  then show ?thesis by (simp add: unfinished_def)
qed

definition dead :: "process \<Rightarrow> bool" where
  "dead p \<longleftrightarrow> (\<exists>m. mpc p = Died m)"

definition group_inv :: "process \<Rightarrow> bool" where
  "group_inv p \<longleftrightarrow> wg p = unfinished (status p) \<and> (\<forall>as. mpc p = Starting as \<longrightarrow> distinct as \<and> waiter p = NoWaiter) \<and>
     (dead p \<or> (\<forall>a. status p a = Unstarted \<longleftrightarrow> (\<exists>as. mpc p = Starting as \<and> a \<in> set as))) \<and>
     (waiter p \<noteq> NoWaiter \<longrightarrow> mpc p = AwaitApps \<or> mpc p = Leaving \<or> mpc p = Returning \<or> mpc p = Exited \<or> dead p) \<and>
     (waiter p = SendDone \<or> waiter p = WaiterDone \<longrightarrow> wg p = 0)"

lemma set_applications [simp]: "a \<in> set applications"
  by (cases a) (simp_all add: applications_def)

lemma distinct_applications: "distinct applications"
  by (simp add: applications_def)

lemma group_inv_main:
  assumes "main_step e p q" "group_inv p"
  shows "group_inv q"
  using assms(1)
proof cases
  case (start_app a as)
  have "status p a = Unstarted" using assms(2) start_app by (simp add: group_inv_def dead_def)
  then have "active (status p a) = 0" by (simp add: active_def)
  with unfinished_update [of "status p" a Opening] have "unfinished ((status p)(a := Opening)) = unfinished (status p) + 1"
    by (simp add: active_def)
  with assms(2) start_app show ?thesis by (auto simp: group_inv_def dead_def)
qed (use assms(2) in \<open>auto simp: group_inv_def dead_def\<close>)

text \<open>An application that ends takes itself out of the group.\<close>

lemma group_inv_finish:
  assumes "group_inv p" "active (status p a) = 1" "x = Finished r"
  shows "group_inv (p\<lparr>status := (status p)(a := x), wg := wg p - 1\<rparr>)"
proof -
  have "unfinished ((status p)(a := x)) = unfinished (status p) - 1"
    using unfinished_update [of "status p" a x] assms(2,3) by (simp add: active_def)
  moreover have "status p a \<noteq> Unstarted" using assms(2) by (auto simp: active_def)
  ultimately show ?thesis using assms(1,3) by (auto simp: group_inv_def dead_def)
qed

lemma group_inv_switch:
  assumes "group_inv p" "active (status p a) = 1" "active x = 1"
  shows "group_inv (p\<lparr>status := (status p)(a := x)\<rparr>)" "group_inv (p\<lparr>status := (status p)(a := x), shown := sh\<rparr>)"
proof -
  have "unfinished ((status p)(a := x)) = unfinished (status p)"
    using unfinished_update [of "status p" a x] assms(2,3) by simp
  moreover have "status p a \<noteq> Unstarted" "x \<noteq> Unstarted" using assms(2,3) by (auto simp: active_def)
  ultimately show "group_inv (p\<lparr>status := (status p)(a := x)\<rparr>)" "group_inv (p\<lparr>status := (status p)(a := x), shown := sh\<rparr>)"
    using assms(1) by (auto simp: group_inv_def dead_def)
qed

lemma group_inv_call:
  assumes "group_inv p"
  shows "group_inv (after_call res (p\<lparr>calls := cs\<rparr>))" "group_inv (after_call res (p\<lparr>mutex := mu\<rparr>))"
  using assms by (auto simp: group_inv_def after_call_def dead_def split: option.splits)

lemma group_inv_bg:
  assumes "bg_step e p q" "group_inv p"
  shows "group_inv q"
  using assms(1)
proof cases
  case (open_stops a)
  show ?thesis unfolding open_stops(1) by (rule group_inv_finish [OF assms(2)]) (simp_all add: open_stops active_def)
next
  case (open_fails a er)
  show ?thesis unfolding open_fails(1) by (rule group_inv_switch(2) [OF assms(2)]) (simp_all add: open_fails active_def)
next
  case (open_loops a)
  show ?thesis unfolding open_loops(1) by (rule group_inv_switch(1) [OF assms(2)]) (simp_all add: open_loops active_def)
next
  case (app_returns a)
  show ?thesis unfolding app_returns(1) by (rule group_inv_finish [OF assms(2)]) (simp_all add: app_returns active_def)
next
  case (app_fails a er)
  show ?thesis unfolding app_fails(1) by (rule group_inv_switch(2) [OF assms(2)]) (simp_all add: app_fails active_def)
next
  case (box_closed a er)
  show ?thesis unfolding box_closed(1) by (rule group_inv_finish [OF assms(2)]) (simp_all add: box_closed active_def)
next
  case (agent_call orig part op res)
  show ?thesis unfolding agent_call(1) by (rule group_inv_call(1) [OF assms(2)])
next
  case (card_end orig op res)
  show ?thesis unfolding card_end(1) by (rule group_inv_call(2) [OF assms(2)])
qed (use assms(2) in \<open>auto simp: group_inv_def dead_def\<close>)

lemma unfinished_start: "unfinished (\<lambda>a. Unstarted) = 0"
  by (simp add: unfinished_def applications_def active_def)

interpretation group: step_invariant "process_step e" "process_start e" group_inv
proof
  show "group_inv (process_start e)"
    by (simp add: group_inv_def process_start_def dead_def unfinished_start distinct_applications)
qed (auto elim: process_stepE intro: group_inv_main group_inv_bg)

subsection \<open>Who is served\<close>

text \<open>Connections are served only after they were handed over, and a connection handed over is remembered.\<close>

lemma serving_given:
  assumes "reachable t s"
  shows "set (serving s) \<subseteq> set (given s)"
  using assms
proof (induction rule: rtranclp_induct)
  case (step s s')
  from step(2) show ?case by cases (use step(3) set_remove1_subset [of _ "serving s"] in auto)
qed (simp add: run_start_def)

lemma run_step_given: "run_step t s s' \<Longrightarrow> c \<in> set (given s) \<Longrightarrow> c \<in> set (given s')"
  by (erule run_stepE) auto

lemma exch_step_hs: "exch_step x y \<Longrightarrow> length (hs x) \<le> length (hs y)"
  by (erule exch_stepE) auto

lemma run_step_Returned: "run_step t s s' \<Longrightarrow> at s = Returned r \<Longrightarrow> at s' = Returned r"
  by (cases rule: run_step.cases) auto

lemma exch_step_Returned: "exch_step x y \<Longrightarrow> acc x = Returned r \<Longrightarrow> acc y = Returned r"
  by (cases rule: exch_step.cases) auto

text \<open>The connection was accepted by its transport and handed to the agent.\<close>

fun accepted :: "loops \<Rightarrow> origin \<Rightarrow> bool" where
  "accepted l (OverPipe c) = (c \<in> set (given (l_pipe l)))"
| "accepted l (OverWSL c) = (c \<in> set (given (l_wsl l)))"
| "accepted l (OverCygwin c) = (c \<in> set (given (l_cyg l)))"
| "accepted l (OverXShell c) = (c \<in> set (given (l_xsh l)))"
| "accepted l (OverVSock c) = (c \<in> set (given (l_vs l)))"
| "accepted l (OverWorker v c) = ((v, c) \<in> set (l_wgiven l))"
| "accepted l (OverPageant i) = (i < length (hs (l_pag l)))"

lemma accepted_step: "loops_step e b l l' \<Longrightarrow> accepted l orig \<Longrightarrow> accepted l' orig"
  by (cases rule: loops_step.cases; cases orig) (auto dest: run_step_given exch_step_hs)

lemma accepted_cancel [simp]: "accepted (loops_cancel l) orig = accepted l orig"
  by (cases orig) (simp_all add: loops_cancel_def)

lemma serving_from_cancel [simp]: "serving_from (loops_cancel l) orig = serving_from l orig"
  by (cases orig) (simp_all add: loops_cancel_def)

lemma loop_at_cancel [simp]: "loop_at a (loops_cancel l) = loop_at a l"
  by (cases a) (simp_all add: loops_cancel_def)

lemma loop_at_Returned: "loops_step e b l l' \<Longrightarrow> loop_at a l = Returned r \<Longrightarrow> loop_at a l' = Returned r"
  by (cases rule: loops_step.cases; cases a) (auto dest: run_step_Returned exch_step_Returned)

lemma serving_accepted: "loops_ok e l \<Longrightarrow> serving_from l orig \<Longrightarrow> accepted l orig"
  by (cases orig) (auto simp: loops_ok_def dest: serving_given)

definition calls_inv :: "env \<Rightarrow> process \<Rightarrow> bool" where
  "calls_inv e p \<longleftrightarrow> loops_ok e (lps p) \<and> (\<forall>(orig, op) \<in> set (calls p). accepted (lps p) orig) \<and>
     (\<forall>orig op. mutex p = Some (orig, op) \<longrightarrow> serving_from (lps p) orig) \<and>
     (\<forall>a. status p a = Finished None \<and> opened_of e a = Loops \<longrightarrow> loop_at a (lps p) = Returned None)"

interpretation calls: step_invariant "process_step e" "process_start e" "calls_inv e"
proof
  fix p q assume "process_step e p q" and inv: "calls_inv e p"
  then show "calls_inv e q"
  proof (cases rule: process_stepE)
    case 1
    then show ?thesis by cases (use inv in \<open>auto simp: calls_inv_def loops_ok_cancel\<close>)
  next
    case 2
    then show ?thesis
    proof cases
      case (app_step a l)
      then show ?thesis
        using inv loops_ok_step [OF app_step(6)] accepted_step [OF app_step(6)] loop_at_Returned [OF app_step(6)]
        by (fastforce simp: calls_inv_def)
    next
      case (agent_call orig part op res)
      then show ?thesis using inv serving_accepted by (fastforce simp: calls_inv_def after_call_def)
    next
      case (card_begin orig op)
      then show ?thesis using inv serving_accepted by (fastforce simp: calls_inv_def)
    next
      case (card_end orig op res)
      then show ?thesis using inv by (auto simp: calls_inv_def after_call_def)
    qed (use inv in \<open>auto simp: calls_inv_def\<close>)
  qed
qed (simp add: calls_inv_def process_start_def loops_ok_start)

subsection \<open>The certificate references\<close>

text \<open>
  What is documented of the third-party code that the program is built with; the agent starts without
  keys, and no call before that concerns certificates.
\<close>

definition env_ok :: "env \<Rightarrow> bool" where
  "env_ok e \<longleftrightarrow> capi_ok (e_card e) \<and> foreign (e_ring e) \<and> (\<forall>c. foreign (e_client e c)) \<and>
     keys (e_world e) = None \<and> list_all refless (log (e_world e))"

lemma components_blind:
  assumes "env_ok e" "log_blind I" "\<not> no_card e \<Longrightarrow> agent_keeps (CAPIAgent (e_card e) (e_disablePINCache e)) I"
    and "part \<in> set (components e)"
  shows "agent_keeps (agent_of e part) I"
  using assms KeyRingAgent_blind [of "e_ring e" I] HVAgent_blind [of "e_client e" I]
  by (auto simp: components_def env_ok_def no_card_def split: if_splits)

lemma log_blind_settled: "log_blind settled" and log_blind_none: "log_blind (\<lambda>w. keys w = None)"
  by (simp_all add: log_blind_def settled_def surplus_def keys_of_def)

lemma targets_components: "set (targets e op) \<subseteq> set (components e)"
  by (auto simp: targets_def dest: in_set_takeD split: agent_op.splits)

definition world_inv :: "env \<Rightarrow> process \<Rightarrow> bool" where
  "world_inv e p \<longleftrightarrow> (env_ok e \<longrightarrow> ledger (world p) \<and> (enum_ok (e_card e) \<longrightarrow> settled (world p)) \<and>
     (no_card e \<longrightarrow> keys (world p) = None)) \<and>
     (\<forall>parts ks. mpc p = Viewing parts ks \<longrightarrow> set parts \<subseteq> set (components e)) \<and>
     (mutex p \<noteq> None \<longrightarrow> Card \<in> set (components e))"

lemma deferred_close_keeps:
  "ledger w \<Longrightarrow> ledger (deferred_close e w)" "settled w \<Longrightarrow> settled (deferred_close e w)"
  "\<not> no_card e \<Longrightarrow> keys (deferred_close e w) = None" "keys w = None \<Longrightarrow> keys (deferred_close e w) = None"
  using CAPIAgent_close_world [of "e_card e" w]
  by (auto simp: deferred_close_def CAPIAgent_Close_def ledger_def settled_def neutral_keys_def keys_of_def no_card_def)

lemma world_inv_call:
  assumes "world_inv e p" "part \<in> set (components e)" "agent_step (agent_of e part) op (world p) = Some w"
    and "world q = w" "\<forall>parts ks. mpc q = Viewing parts ks \<longrightarrow> set parts \<subseteq> set (components e)" "mutex q = mutex p \<or> mutex q = None"
  shows "world_inv e q"
proof -
  have "ledger w \<and> (enum_ok (e_card e) \<longrightarrow> settled w) \<and> (no_card e \<longrightarrow> keys w = None)" if ok: "env_ok e"
  proof -
    have c: "capi_ok (e_card e)" using ok by (simp add: env_ok_def)
    note keeps = components_blind [OF ok _ _ assms(2)]
    have "ledger w"
      using agent_keeps.step_keeps [OF keeps [OF log_blind_ledger CAPIAgent_keeps [OF c]] assms(3)] assms(1) ok
      by (simp add: world_inv_def)
    moreover have "settled w" if "enum_ok (e_card e)"
      using agent_keeps.step_keeps [OF keeps [OF log_blind_settled CAPIAgent_settles [OF c that]] assms(3)] assms(1) ok that
      by (simp add: world_inv_def)
    moreover have "keys w = None" if "no_card e"
      using agent_keeps.step_keeps [OF keeps [OF log_blind_none] assms(3)] assms(1) ok that by (simp add: world_inv_def)
    ultimately show ?thesis by blast
  qed
  then show ?thesis using assms(1,4-6) by (auto simp: world_inv_def)
qed

lemma world_inv_after_call:
  assumes "world_inv e p" "part \<in> set (components e)" "agent_result (agent_of e part) op (world p) = Some res"
    and "mpc q = mpc p" "mutex q = mutex p \<or> mutex q = None"
  shows "world_inv e (after_call res q)"
proof (rule world_inv_call [OF assms(1,2)])
  show "agent_step (agent_of e part) op (world p) = Some (fst res)" using agent_result_step [of _ _ _ "fst res" "snd res"] assms(3) by simp
qed (use assms in \<open>auto simp: world_inv_def after_call_def split: option.splits\<close>)

lemma world_inv_view:
  assumes "world_inv e p" "mpc p = Viewing (part # parts) ks" "ag_List (agent_of e part) (world p) = Some (w, r)"
    and "world q = w" "mpc q = Viewing parts ks' \<or> mpc q = Boxed \<or> mpc q = Unwinding m" "mutex q = mutex p"
  shows "world_inv e q"
proof (rule world_inv_call [OF assms(1)])
  show "part \<in> set (components e)" using assms(1,2) by (auto simp: world_inv_def)
  show "agent_step (agent_of e part) OpList (world p) = Some w" using assms(3) by (simp add: discard_def)
qed (use assms in \<open>auto simp: world_inv_def\<close>)

lemma world_inv_click:
  "world_inv e p \<Longrightarrow> world_inv e (p\<lparr>mpc := if fin then Cleanup else after_click e st clicked, ran := x\<rparr>)"
  by (auto simp: world_inv_def after_click_def split: list.splits)

interpretation references: step_invariant "process_step e" "process_start e" "world_inv e"
proof
  have "env_ok e \<Longrightarrow> refs (log (e_world e)) c = 0" for c
    using refs_list_refless [of "log (e_world e)" c] by (simp add: env_ok_def)
  then show "world_inv e (process_start e)"
    by (auto simp: world_inv_def process_start_def env_ok_def ledger_def settled_def surplus_def keys_of_def neutral_keys_def)
next
  fix p q assume "process_step e p q" and inv: "world_inv e p"
  then show "world_inv e q"
  proof (cases rule: process_stepE)
    case 1
    then show ?thesis
    proof cases
      case leave
      then show ?thesis using inv deferred_close_keeps [where w = "world p" and e = e] by (auto simp: world_inv_def)
    next
      case (unwind m)
      then show ?thesis using inv deferred_close_keeps [where w = "world p" and e = e] by (auto simp: world_inv_def)
    next
      case (event ev clicked fin)
      then show ?thesis using inv world_inv_click by auto
    next
      case (view_list part parts ks w ks')
      then show ?thesis using world_inv_view [OF inv view_list(2,4), of q "ks @ ks'"] by simp
    next
      case (view_fails part parts ks w er)
      then show ?thesis using world_inv_view [OF inv view_fails(2,4), of q] by simp
    next
      case (view_panics part parts ks w m)
      then show ?thesis using world_inv_view [OF inv view_panics(2,4), of q _ m] by simp
    qed (use inv in \<open>auto simp: world_inv_def\<close>)
  next
    case 2
    then show ?thesis
    proof cases
      case (agent_call orig part op res)
      then have "part \<in> set (components e)" using targets_components by blast
      then show ?thesis unfolding agent_call(1) by (rule world_inv_after_call [OF inv _ agent_call(6)]) simp_all
    next
      case (card_end orig op res)
      then have "Card \<in> set (components e)" using inv by (simp add: world_inv_def)
      then show ?thesis unfolding card_end(1) by (rule world_inv_after_call [OF inv _ card_end(4)]) simp_all
    next
      case (card_begin orig op)
      then have "Card \<in> set (components e)" using targets_components by blast
      with inv card_begin show ?thesis by (auto simp: world_inv_def)
    qed (use inv in \<open>auto simp: world_inv_def alive_def\<close>)
  qed
qed

subsection \<open>The public-key view\<close>

text \<open>When no other goroutine comes in between, the view shows what \<open>PubKeyView_onClick\<close> shows for the whole agent.\<close>

lemma view_lists:
  assumes "WrappedAgent_List (map (agent_of e) parts) ks (world p) = Some (w, Ret all)" "mpc p = Viewing parts ks" "mutex p = None"
  shows "(main_step e)\<^sup>*\<^sup>* p (p\<lparr>mpc := Viewing [] all, world := w\<rparr>)"
  using assms
proof (induction parts arbitrary: p ks)
  case Nil
  then have "p = p\<lparr>mpc := Viewing [] all, world := w\<rparr>" by (cases p) simp
  then show ?case by (metis rtranclp.rtrancl_refl)
next
  case (Cons part parts)
  then obtain w1 ks' where l: "ag_List (agent_of e part) (world p) = Some (w1, Ret ks')"
      "WrappedAgent_List (map (agent_of e) parts) (ks @ ks') w1 = Some (w, Ret all)"
    by (auto simp: and_then_def split: option.splits outcome.splits)
  let ?p = "p\<lparr>mpc := Viewing parts (ks @ ks'), world := w1\<rparr>"
  have "main_step e p ?p" using Cons.prems(3) by (intro main_step.view_list [OF Cons.prems(2) _ l(1)]) (simp add: unlocked_def)
  moreover have "(main_step e)\<^sup>*\<^sup>* ?p (p\<lparr>mpc := Viewing [] all, world := w\<rparr>)" using Cons.IH [of "ks @ ks'" ?p] l(2) Cons.prems(3) by simp
  ultimately show ?case by (rule converse_rtranclp_into_rtranclp)
qed

lemma components_List: "ag_List (main_agent e) w = WrappedAgent_List (map (agent_of e) (components e)) [] w"
  by (auto simp: main_agent_def components_def NewWrappedAgent_def WrappedAgent_def and_then_def split: option.splits outcome.splits)

lemma view_is_onClick:
  assumes "ag_List (main_agent e) (world p) = Some (w, Ret ks)" "mpc p = Viewing (components e) []" "mutex p = None"
  shows "\<exists>q ui. (main_step e)\<^sup>*\<^sup>* p q \<and> mpc q = Boxed \<and> world q = w \<and> shown q = rev ui @ shown p \<and>
    PubKeyView_onClick (e_key e) (e_text e) (main_agent e) ok (world p) = Some (w, Ret ui)"
proof -
  let ?ui = "offer ''Public Keys (OK to copy):'' (PubKeyView_text (e_key e) ks) ok"
  let ?p = "p\<lparr>mpc := Viewing [] ks, world := w\<rparr>"
  have "(main_step e)\<^sup>*\<^sup>* p ?p" using view_lists [OF _ assms(2,3)] assms(1) by (simp add: components_List)
  moreover have "main_step e ?p (?p\<lparr>mpc := Boxed, shown := rev ?ui @ shown ?p\<rparr>)" by (rule main_step.view_shows) simp
  ultimately have "(main_step e)\<^sup>*\<^sup>* p (?p\<lparr>mpc := Boxed, shown := rev ?ui @ shown ?p\<rparr>)" by (rule rtranclp.rtrancl_into_rtrancl)
  moreover have "PubKeyView_onClick (e_key e) (e_text e) (main_agent e) ok (world p) = Some (w, Ret ?ui)"
    using assms(1) by (simp add: PubKeyView_onClick_def and_then_def)
  ultimately show ?thesis by (intro exI [of _ "?p\<lparr>mpc := Boxed, shown := rev ?ui @ shown ?p\<rparr>"] exI [of _ ?ui]) simp
qed

subsection \<open>The shutdown\<close>

definition closing :: "process \<Rightarrow> bool" where
  "closing p \<longleftrightarrow> mpc p = Cleanup \<or> mpc p = AwaitApps \<or> mpc p = Leaving \<or> mpc p = Returning"

definition gone :: "process \<Rightarrow> bool" where
  "gone p \<longleftrightarrow> mpc p = Exited \<or> dead p"

definition closing_left :: "process \<Rightarrow> nat" where
  "closing_left p = (case mpc p of Cleanup \<Rightarrow> 4 | AwaitApps \<Rightarrow> 3 | Leaving \<Rightarrow> 2 | Returning \<Rightarrow> 1 | _ \<Rightarrow> 0)"

lemma closing_main: "main_step e p q \<Longrightarrow> closing p \<Longrightarrow> gone q \<or> closing q \<and> closing_left q < closing_left p"
  by (cases rule: main_step.cases) (auto simp: closing_def gone_def closing_left_def)

lemma closing_bg: "bg_step e p q \<Longrightarrow> closing p \<Longrightarrow> gone q \<or> closing q \<and> closing_left q \<le> closing_left p"
  by (cases rule: bg_step.cases) (auto simp: closing_def gone_def closing_left_def dead_def after_call_def split: option.splits)

text \<open>\<^verbatim>\<open>main\<close> can always go on, except that the deferred \<^verbatim>\<open>cag.Close()\<close> needs the mutex.\<close>

interpretation shutdown: fair_progress "process_step e" "main_step e" gone closing "can_close e" closing_left
proof
  fix p assume "closing p" "can_close e p"
  then show "\<exists>q. main_step e p q"
    unfolding closing_def by (auto intro: main_step.cleanup main_step.timer main_step.leave main_step.exit)
next
  fix p q assume "main_step e p q" "closing p"
  then show "gone q \<or> closing_left q < closing_left p" using closing_main by blast
next
  fix p q assume "process_step e p q" "closing p"
  then show "gone q \<or> closing q \<and> closing_left q \<le> closing_left p"
    using closing_main [of e p q] closing_bg [of e p q] by (auto simp: process_step_def)
qed

subsection \<open>Properties\<close>







text \<open>
  No certificate context is given back too often while the program runs; where the enumeration never
  breaks off the keys of the agent hold exactly the references; and the deferred close drops them all.
\<close>

lemma references_kept:
  assumes "process_reachable e p" and "env_ok e"
  shows "held (map key_cert (keys_of (world p))) c \<le> refs (log (world p)) c"
    and "enum_ok (e_card e) \<Longrightarrow> refs (log (world p)) c = held (map key_cert (keys_of (world p))) c"
    and "enum_ok (e_card e) \<Longrightarrow> mpc p = Leaving \<Longrightarrow> main_step e p q \<Longrightarrow> refs (log (world q)) c = 0"
proof -
  note inv = references.inv_reachable [OF assms(1)]
  show "held (map key_cert (keys_of (world p))) c \<le> refs (log (world p)) c"
    using inv assms(2) by (simp add: world_inv_def ledger_def surplus_def)
  show "refs (log (world p)) c = held (map key_cert (keys_of (world p))) c" if "enum_ok (e_card e)"
    using inv assms(2) that by (simp add: world_inv_def settled_def surplus_def)
  assume en: "enum_ok (e_card e)" and "mpc p = Leaving" "main_step e p q"
  then have q: "world q = deferred_close e (world p)" by (auto elim: main_stepE)
  have "keys (world q) = None" "settled (world q)"
    using inv assms(2) en deferred_close_keeps [where w = "world p" and e = e] by (auto simp: q world_inv_def)
  then show "refs (log (world q)) c = 0" by (simp add: settled_def surplus_def keys_of_def)
qed

text \<open>
  Property C9. A complete shutdown: if \<^verbatim>\<open>main\<close> leaves because the wait group reported the end of the
  applications (and not because five seconds were over), every application has returned, and every
  transport other than the Hyper-V one that returned without an error serves nobody any more.
  (\<^verbatim>\<open>VSock.Run\<close> does not wait for its handlers, and the workers' handlers are counted nowhere.)
\<close>

theorem process_complete_shutdown:
  assumes "process_reachable e p" and "waiter p = WaiterDone" and "mpc p = Exited"
  shows "(\<forall>a. \<exists>r. status p a = Finished r) \<and>
    (\<forall>a. status p a = Finished None \<and> opened_of e a = Loops \<and> a \<noteq> VSock \<longrightarrow> \<not> serves a (lps p))"
proof -
  note g = group.inv_reachable [OF assms(1)]
  have "\<exists>r. status p a = Finished r" for a
  proof -
    have "active (status p a) = 0" using g assms(2) by (intro unfinished_zero) (simp add: group_inv_def)
    moreover have "status p a \<noteq> Unstarted" using g assms(3) by (auto simp: group_inv_def dead_def)
    ultimately show ?thesis by (cases "status p a") (auto simp: active_def)
  qed
  moreover have "\<not> serves a (lps p)" if a: "status p a = Finished None" "opened_of e a = Loops" "a \<noteq> VSock" for a
  proof -
    have ok: "loops_ok e (lps p)" and r: "loop_at a (lps p) = Returned None"
      using calls.inv_reachable [OF assms(1)] a by (auto simp: calls_inv_def)
    obtain x where x: "reachable Pageant_loop x" "loop_view (l_pag (lps p)) x"
      using exch_sim.rel_reachable ok unfolding loops_ok_def by blast
    have "acc (l_pag (lps p)) = Returned None \<Longrightarrow> list_all h_ended (hs (l_pag (lps p)))"
      using pageant.drained [OF x(1)] loop_view_drained [OF x(2)] x(2) by (simp add: loop_view_def)
    with ok r a(3) show ?thesis
      unfolding loops_ok_def by (cases a) (auto dest: pipe.drained wsl.drained cygwin.drained xshell.drained)
  qed
  ultimately show ?thesis by blast
qed

text \<open>
  Property C17. The wait group of \<^verbatim>\<open>main\<close> is well formed: its counter is the number of applications that
  have been started and have not finished, so \<^verbatim>\<open>Done\<close> is only called on a positive counter (it would
  panic otherwise), and \<^verbatim>\<open>Wait\<close> is called after the last \<^verbatim>\<open>Add\<close>.
\<close>

theorem process_wait_group:
  assumes "process_reachable e p"
  shows "wg p = length (filter (\<lambda>a. active (status p a) = 1) applications) \<and>
    (\<forall>a. active (status p a) = 1 \<longrightarrow> 0 < wg p) \<and>
    (waiter p \<noteq> NoWaiter \<and> \<not> dead p \<longrightarrow> (\<forall>a. status p a \<noteq> Unstarted))"
proof -
  note g = group.inv_reachable [OF assms]
  have "0 < wg p" if "active (status p a) = 1" for a
    using g unfinished_zero [of "status p" a] that by (cases "wg p") (auto simp: group_inv_def)
  moreover have "wg p = length (filter (\<lambda>a. active (status p a) = 1) applications)"
    using g unfinished_count by (simp add: group_inv_def)
  moreover have "waiter p \<noteq> NoWaiter \<and> \<not> dead p \<longrightarrow> (\<forall>a. status p a \<noteq> Unstarted)"
    using g by (auto simp: group_inv_def)
  ultimately show ?thesis by blast
qed

text \<open>
  Property C3. The program comes to an end once \<^verbatim>\<open>main\<close> has begun to close it: in every execution in which
  the goroutine of \<^verbatim>\<open>main\<close> is scheduled whenever it can go on again and again (strong fairness), and in
  which the mutex of the smart-card agent, if there is one, does not stay locked for good, the program
  exits (or another goroutine has ended it by a panic), whatever the applications, their handlers and
  their clients do meanwhile. (\<^verbatim>\<open>main\<close> does not wait for them longer than five seconds, but its deferred
  \<^verbatim>\<open>cag.Close()\<close> waits for that mutex.)
\<close>

theorem process_exits:
  assumes "closing (f 0)" and "\<And>i. process_step e (f i) (f (Suc i)) \<or> f (Suc i) = f i"
    and "strongly_fair (main_step e) f" and "\<And>n. \<exists>i \<ge> n. no_card e \<or> mutex (f i) = None"
  shows "\<exists>i. mpc (f i) = Exited \<or> (\<exists>m. mpc (f i) = Died m)"
  using shutdown.strong_reaches [of f e, OF assms(1-3)] assms(4) by (auto simp: can_close_def gone_def dead_def)

lemma serving_from_xsh [simp]: "serving u = serving (l_xsh l) \<Longrightarrow> serving_from (l\<lparr>l_xsh := u\<rparr>) orig = serving_from l orig"
  by (cases orig) simp_all

text \<open>
  Property C11. Four bytes end the program: whenever the XShell transport waits for a connection, a
  client that sends \<^verbatim>\<open>FF FF FF FC\<close> makes the handshake panic, and the panic takes the whole process
  with it. The client needs no cookie.
\<close>

theorem process_killed:
  assumes "alive p" and "status p XShell = Running" and "opened_of e XShell = Loops"
    and "at (l_xsh (lps p)) = InAccept"
    and "4 \<le> length (conn_avail c)" and "be_uint32 (take 4 (conn_avail c)) = 0xFFFFFFFC"
  shows "\<exists>q m. (process_step e)\<^sup>*\<^sup>* p q \<and> mpc q = Died m \<and>
    snd (xshellHandshake (e_unmarshal e) (e_marshal e) c (cookie_bytes e)) = Panic m"
proof -
  obtain m where m: "snd (xshellHandshake (e_unmarshal e) (e_marshal e) c (cookie_bytes e)) = Panic m"
    using xshellHandshake_Panic assms(5,6) by blast
  let ?t = "XShell_loop (e_unmarshal e) (e_marshal e) (cookie_bytes e)" and ?u = "(l_xsh (lps p))\<lparr>at := Crashed m\<rparr>"
  let ?q = "p\<lparr>lps := (lps p)\<lparr>l_xsh := ?u\<rparr>\<rparr>"
  have "guard ?t c = Crash m"
    using m by (auto simp: XShell_loop_def XShell_guard_def split: prod.split)
  then have "run_step ?t (l_xsh (lps p)) ?u" using assms(4) by (intro run_step.accept_crash)
  then have "loops_step e XShell (lps p) ((lps p)\<lparr>l_xsh := ?u\<rparr>)" by (intro loops_step.xsh_step) simp_all
  then have "process_step e p ?q"
    using assms by (auto simp: process_step_def intro!: bg_step.app_step [where a = XShell])
  moreover have "process_step e ?q (?q\<lparr>mpc := Died m\<rparr>)"
    using assms by (auto simp: process_step_def panicked_def alive_def intro!: bg_step.app_panics [where a = XShell])
  ultimately have "(process_step e)\<^sup>*\<^sup>* p (?q\<lparr>mpc := Died m\<rparr>)" by (rule two_steps)
  then show ?thesis using m by (intro exI [of _ "?q\<lparr>mpc := Died m\<rparr>"] exI [of _ m]) simp
qed

subsection \<open>Witnesses\<close>

text \<open>Runs of the program: all applications are started, some of them end at once, \<^verbatim>\<open>main\<close> closes the program.\<close>

lemma main_is_step: "main_step e p q \<Longrightarrow> process_step e p q"
  by (simp add: process_step_def)

lemma start_all:
  assumes "mpc p = Starting as"
  shows "\<exists>q. (process_step e)\<^sup>*\<^sup>* p q \<and> mpc q = Starting [] \<and> lps q = lps p \<and> world q = world p \<and> mutex q = mutex p \<and> calls q = calls p \<and>
    (\<forall>a. status q a = (if a \<in> set as then Opening else status p a))"
  using assms
proof (induction as arbitrary: p)
  case (Cons a as)
  let ?p = "p\<lparr>mpc := Starting as, pmenu := register_all (Menu_entries (e_hvSocket e) a) (pmenu p), wg := wg p + 1,
      status := (status p)(a := Opening)\<rparr>"
  have "process_step e p ?p" using main_step.start_app [OF Cons.prems] by (simp add: process_step_def)
  with Cons.IH [of ?p] show ?case by (auto intro: converse_rtranclp_into_rtranclp)
qed auto

lemma started:
  obtains p where "process_reachable e p" "mpc p = Starting []" "lps p = loops_start e" "world p = e_world e" "mutex p = None" "calls p = []"
    "\<And>a. status p a = Opening"
  using start_all [of "process_start e" applications e] that by (auto simp: process_start_def)

lemma finish_one:
  assumes "alive p" "status p a = Opening" "opened_of e a = Stops r"
  shows "\<exists>q. (process_step e)\<^sup>*\<^sup>* p q \<and> mpc q = mpc p \<and> lps q = lps p \<and> mutex q = mutex p \<and> status q = (status p)(a := Finished r)"
proof (cases r)
  case None
  let ?q = "p\<lparr>status := (status p)(a := Finished None), wg := wg p - 1\<rparr>"
  have "process_step e p ?q" using assms None bg_step.open_stops [of p a e] by (simp add: process_step_def)
  then show ?thesis using None by (intro exI [of _ ?q]) auto
next
  case (Some er)
  let ?p = "p\<lparr>status := (status p)(a := Reporting er), shown := run_error a (e_text e er) # shown p\<rparr>"
  let ?q = "?p\<lparr>status := (status ?p)(a := Finished (Some er)), wg := wg ?p - 1\<rparr>"
  have 1: "process_step e p ?p" using assms Some bg_step.open_fails [of p a e er] by (simp add: process_step_def)
  have "bg_step e ?p ?q" by (rule bg_step.box_closed) (use assms(1) in \<open>simp_all add: alive_def\<close>)
  then have "process_step e ?p ?q" by (simp add: process_step_def)
  from two_steps [of "process_step e", OF 1 this] show ?thesis using Some by (intro exI [of _ ?q]) simp
qed

lemma finish_all:
  assumes "alive p" "\<forall>a \<in> set as. status p a = Opening \<and> (\<exists>r. opened_of e a = Stops r)" "distinct as"
  shows "\<exists>q. (process_step e)\<^sup>*\<^sup>* p q \<and> mpc q = mpc p \<and> lps q = lps p \<and> mutex q = mutex p \<and>
    (\<forall>a \<in> set as. \<exists>r. status q a = Finished r) \<and> (\<forall>a. a \<notin> set as \<longrightarrow> status q a = status p a)"
  using assms
proof (induction as arbitrary: p)
  case (Cons a as)
  then obtain r where "opened_of e a = Stops r" by auto
  with finish_one [of p a e r] Cons.prems obtain p1 where p1: "(process_step e)\<^sup>*\<^sup>* p p1" "mpc p1 = mpc p" "lps p1 = lps p" "mutex p1 = mutex p"
      "status p1 = (status p)(a := Finished r)"
    by auto
  have "alive p1" using Cons.prems(1) p1(2) by (simp add: alive_def)
  moreover have "\<forall>b \<in> set as. status p1 b = Opening \<and> (\<exists>r. opened_of e b = Stops r)" using Cons.prems p1(5) by auto
  ultimately obtain q where "(process_step e)\<^sup>*\<^sup>* p1 q" "mpc q = mpc p1" "lps q = lps p1" "mutex q = mutex p1"
      "\<forall>a \<in> set as. \<exists>r. status q a = Finished r" "\<forall>b. b \<notin> set as \<longrightarrow> status q b = status p1 b"
    using Cons.IH [of p1] Cons.prems(3) by auto
  with p1 Cons.prems(3) show ?case by (intro exI [of _ q]) (auto intro: rtranclp_trans)
qed auto

lemma stop_from:
  assumes "mpc p = Starting []" "e_trayAdd e = None"
  shows "\<exists>q. (process_step e)\<^sup>*\<^sup>* p q \<and> mpc q = Cleanup \<and> wg q = wg p \<and> world q = world p \<and> mutex q = mutex p \<and>
    lps q = lps p \<and> status q = status p \<and> calls q = calls p"
proof -
  let ?p1 = "p\<lparr>mpc := AddingTray, pmenu := (pmenu p)\<lparr>menu_items := menu_items (pmenu p) @ [(''Quit'', MENU_QUIT)]\<rparr>\<rparr>"
  let ?p2 = "?p1\<lparr>mpc := EventLoop\<rparr>" and ?p3 = "?p1\<lparr>mpc := Cleanup\<rparr>"
  have 1: "process_step e p ?p1" using main_step.all_started [OF assms(1)] by (simp add: process_step_def)
  have 2: "process_step e ?p1 ?p2" using main_step.tray_added [of ?p1 e] assms(2) by (simp add: process_step_def)
  have 3: "process_step e ?p2 ?p3" using main_step.event [of ?p2 Interrupt "[]" True e] by (simp add: process_step_def)
  from three_steps [of "process_step e", OF 1 2 3] show ?thesis by (intro exI [of _ ?p3]) simp
qed

text \<open>A running application's own steps, while no call of the smart card is in progress.\<close>

lemma app_runs:
  assumes "loops_step e a (lps p) l" "alive p" "opened_of e a = Loops" "status p a = Running" "mutex p = None"
  shows "process_step e p (p\<lparr>lps := l\<rparr>)"
  using bg_step.app_step [OF assms(2,3) _ _ assms(1)] assms(4,5) by (simp add: process_step_def)

lemma close_steps:
  assumes "mpc p = Cleanup" "mutex p = None"
  obtains p1 p2 p3 p4 where "main_step e p p1" "main_step e p1 p2" "main_step e p2 p3" "main_step e p3 p4"
    "mpc p2 = Leaving" "world p2 = world p" "mpc p4 = Exited" "mutex p4 = None"
proof -
  let ?p1 = "p\<lparr>mpc := AwaitApps, lps := loops_cancel (lps p), waiter := WaitGroup\<rparr>"
  let ?p2 = "?p1\<lparr>mpc := Leaving\<rparr>"
  let ?p3 = "?p2\<lparr>mpc := Returning, world := deferred_close e (world ?p2)\<rparr>"
  show thesis
  proof (rule that)
    show "main_step e p ?p1" by (rule main_step.cleanup [OF assms(1)])
    show "main_step e ?p1 ?p2" by (rule main_step.timer) simp
    show "main_step e ?p2 ?p3" by (rule main_step.leave) (simp_all add: can_close_def assms(2))
    show "main_step e ?p3 (?p3\<lparr>mpc := Exited\<rparr>)" by (rule main_step.exit) simp
  qed (simp_all add: assms(2))
qed

definition demo_env :: env where
  "demo_env = \<lparr>e_hvClient = False, e_disableCapi = False, e_disablePINCache = True, e_ring = empty_ring,
     e_dial = (\<lambda>h. Fail (Errno 10050)), e_client = (\<lambda>c. empty_ring), e_card = ssh_demo True, e_text = (\<lambda>er. ''error''), e_key = (\<lambda>k. ''key''),
     e_trayAdd = None, e_pipe = None,
     e_listen = \<lparr>UserCacheDir = Inr ''C'', MkdirAll = (\<lambda>d. None), Join = (\<lambda>a b. a @ [CHR 0x5C] @ b), ListenUnix = (\<lambda>f. None),
       ListenTCP = Inr 4711, VolumeName = (\<lambda>s. []), Sprintf0 = (\<lambda>s. s)\<rparr>,
     e_peer = (\<lambda>c. test_owner), e_cygwin = test_os, e_files = Map.empty, e_pid = 7,
     e_pageant = \<lparr>RegisterClassEx = (1, EOF), CreateWindowEx = (5, EOF), UnregisterClass = (1, EOF)\<rparr>,
     e_xlisten = Inr 4712, e_xwin1 = \<lparr>RegisterClassEx = (1, EOF), CreateWindowEx = (5, EOF), UnregisterClass = (1, EOF)\<rparr>,
     e_xwin2 = \<lparr>RegisterClassEx = (1, EOF), CreateWindowEx = (6, EOF), UnregisterClass = (1, EOF)\<rparr>,
     e_cookie = ''abc'', e_unmarshal = wire_unmarshal_init, e_marshal = wire_marshal_rep,
     e_hvSocket = False, e_hvService = False, e_hvListen = None, e_wmi = (\<lambda>q. Inl EOF), e_world = capi_start\<rparr>"

text \<open>The same program where no transport but the named pipe can be opened.\<close>

definition pipe_env :: env where
  "pipe_env = demo_env\<lparr>e_listen := (e_listen demo_env)\<lparr>UserCacheDir := Inl EOF, ListenTCP := Inl EOF\<rparr>,
     e_pageant := \<lparr>RegisterClassEx = (0, EOF), CreateWindowEx = (0, EOF), UnregisterClass = (0, EOF)\<rparr>, e_xlisten := Inl EOF\<rparr>"

lemma demo_env_ok: "env_ok demo_env" "enum_ok (e_card demo_env)"
  by (simp_all add: env_ok_def demo_env_def capi_ok_demo foreign_empty_ring enum_ok_demo capi_start_def)

lemma demo_opened: "opened_of demo_env Cygwin = Loops" "opened_of demo_env XShell = Loops"
  by (simp_all add: open_cygwin_def open_xshell_def Cygwin_Run_def XShell_Run_def NewXAgent_def createDefaultWindow_def
      createCygwinSocket_def SetFileAttributes_def dataDir_def has_nul_def test_os_def demo_env_def wndClassEx_register_def
      xAgentClassName_def xAgentSingleClassName_def xAgentSingleWindowName_def CYGWIN_SOCK_def Let_def)

lemma pipe_opened: "opened_of pipe_env NamedPipe = Loops" "a \<noteq> NamedPipe \<Longrightarrow> \<exists>r. opened_of pipe_env a = Stops r"
  by (simp add: open_pipe_def NamedPipe_Run_def pipe_env_def demo_env_def)
     (cases a, simp_all add: open_pubkey_def PubKeyView_Run_def open_wsl_def WSL_Run_def WSL_open_def listenUnixSock_def dataDir_def
      open_vsock_def VSock_Run_def open_cygwin_def Cygwin_Run_def open_pageant_def Pageant_Run_def
      NewPageant_def wndClassEx_register_def open_xshell_def XShell_Run_def NewXAgent_def pipe_env_def demo_env_def)

text \<open>A Cygwin client is accepted; its request for the keys reaches the smart card.\<close>

lemma cygwin_served:
  "\<exists>p c. process_reachable demo_env p \<and> mpc p = Starting [] \<and> mutex p = None \<and> calls p = [(OverCygwin c, OpList)] \<and>
     keys (world p) = Some [demo_key]"
proof -
  let ?e = demo_env
  obtain p where p: "process_reachable ?e p" "mpc p = Starting []" "lps p = loops_start ?e" "world p = e_world ?e" "mutex p = None" "calls p = []"
    "\<And>a. status p a = Opening" using started [of ?e] by blast
  obtain c' where c': "cygwinHandshake 7 good_client test_uuid = (c', Ret ())" using good_client_served by blast
  have env: "e_pid ?e = 7" "cygwin_secret ?e = test_uuid" by (simp_all add: demo_env_def cygwin_secret_def test_os_def)
  let ?t = "Cygwin_loop 7 test_uuid"
  let ?r0 = "run_start ?t"
  let ?r1 = "?r0\<lparr>at := InAccept\<rparr>"
  let ?r2 = "?r1\<lparr>at := loop_top ?t, serving := c' # serving ?r1, given := c' # given ?r1\<rparr>"
  let ?p1 = "p\<lparr>status := (status p)(Cygwin := Running)\<rparr>"
  let ?p2 = "?p1\<lparr>lps := (lps ?p1)\<lparr>l_cyg := ?r1\<rparr>\<rparr>" and ?p3 = "?p1\<lparr>lps := (lps ?p1)\<lparr>l_cyg := ?r2\<rparr>\<rparr>"
  have al: "alive p" "alive ?p1" "alive ?p2" "alive ?p3" using p(2) by (simp_all add: alive_def)
  have 1: "process_step ?e p ?p1"
    using bg_step.open_loops [OF al(1) p(7) demo_opened(1)] by (simp add: process_step_def)
  have "run_step ?t ?r0 ?r1" by (rule run_step.select_default) (simp_all add: run_start_def loop_top_def Cygwin_loop_def)
  then have "loops_step ?e Cygwin (lps ?p1) ((lps ?p1)\<lparr>l_cyg := ?r1\<rparr>)"
    using loops_step.cyg_step [of ?e "lps ?p1" ?r1] p(3) env by (simp add: loops_start_def)
  then have 2: "process_step ?e ?p1 ?p2" by (rule app_runs [OF _ al(2) demo_opened(1)]) (simp_all add: p(5))
  have "guard ?t good_client = Serve c'" using c' by (simp add: Cygwin_loop_def Cygwin_guard_def)
  then have "run_step ?t ?r1 ?r2" by (intro run_step.accept_serve) simp_all
  then have "loops_step ?e Cygwin (lps ?p2) ((lps ?p2)\<lparr>l_cyg := ?r2\<rparr>)"
    using loops_step.cyg_step [of ?e "lps ?p2" ?r2] env by simp
  then have "process_step ?e ?p2 (?p2\<lparr>lps := (lps ?p2)\<lparr>l_cyg := ?r2\<rparr>\<rparr>)"
    by (rule app_runs [OF _ al(3) demo_opened(1)]) (simp_all add: p(5))
  then have 3: "process_step ?e ?p2 ?p3" by simp
  let ?p4 = "?p3\<lparr>mutex := Some (OverCygwin c', OpList), calls := [(OverCygwin c', OpList)]\<rparr>"
  have 4: "process_step ?e ?p3 ?p4"
    using bg_step.card_begin [OF al(4), of "OverCygwin c'" ?e OpList] p(5,6)
    by (simp add: process_step_def targets_def components_def demo_env_def)
  obtain w where w: "CAPIAgent_List (ssh_demo True) True capi_start = Some (w, Ret [key_id demo_key])" "keys w = Some [demo_key]"
    using demo_list by blast
  have "agent_result (agent_of ?e Card) OpList (world ?p4) = Some (w, None)"
    using w p(4) by (simp add: demo_env_def CAPIAgent_def panic_of_def)
  then have 5: "process_step ?e ?p4 (after_call (w, None) (?p4\<lparr>mutex := None\<rparr>))"
    using bg_step.card_end [of ?p4 "OverCygwin c'" OpList ?e "(w, None)"] p(2) by (simp add: process_step_def alive_def)
  have "(process_step ?e)\<^sup>*\<^sup>* p ?p3" using three_steps [of "process_step ?e", OF 1 2 3] .
  with p(1) two_steps [of "process_step ?e", OF 4 5] have "process_reachable ?e (after_call (w, None) (?p4\<lparr>mutex := None\<rparr>))"
    by (meson rtranclp_trans)
  then show ?thesis using p(2) w(2) by (intro exI [of _ "after_call (w, None) (?p4\<lparr>mutex := None\<rparr>)"] exI [of _ c']) (simp add: after_call_def)
qed


text \<open>From there \<^verbatim>\<open>main\<close> closes the program.\<close>

lemma demo_closing: "\<exists>p. process_reachable demo_env p \<and> mpc p = Cleanup \<and> mutex p = None \<and> keys (world p) = Some [demo_key]"
proof -
  obtain p where p: "process_reachable demo_env p" "mpc p = Starting []" "mutex p = None" "keys (world p) = Some [demo_key]"
    using cygwin_served by blast
  have "e_trayAdd demo_env = None" by (simp add: demo_env_def)
  with stop_from [OF p(2), of demo_env] p show ?thesis by (metis rtranclp_trans)
qed

lemma demo_leaving:
  "\<exists>p q. process_reachable demo_env p \<and> mpc p = Leaving \<and> keys (world p) = Some [demo_key] \<and> main_step demo_env p q"
proof -
  let ?e = demo_env
  obtain p where p: "process_reachable ?e p" "mpc p = Cleanup" "mutex p = None" "keys (world p) = Some [demo_key]" using demo_closing by blast
  obtain p1 p2 p3 where c: "main_step ?e p p1" "main_step ?e p1 p2" "main_step ?e p2 p3" "mpc p2 = Leaving" "world p2 = world p"
    using close_steps [OF p(2,3), of ?e] by metis
  have "(process_step ?e)\<^sup>*\<^sup>* p p2" using two_steps [of "process_step ?e", OF c(1,2) [THEN main_is_step]] .
  with p(1) have "process_reachable ?e p2" by (rule rtranclp_trans)
  with c p(4) show ?thesis by (intro exI [of _ p2] exI [of _ p3]) simp
qed

theorem process_wait_group_witness:
  "\<exists>p. process_reachable demo_env p \<and> status p XShell = Opening \<and> wg p = 7 \<and> 0 < wg p"
proof -
  obtain p where p: "process_reachable demo_env p" "\<And>a. status p a = Opening" using started [of demo_env] by blast
  then have "wg p = length (filter (\<lambda>a. active (status p a) = 1) applications)" "0 < wg p"
    using process_wait_group [OF p(1)] by (simp_all add: active_def applications_def)
  with p show ?thesis by (intro exI [of _ p]) (simp add: active_def applications_def)
qed

theorem process_exits_witness:
  "\<exists>(f :: nat \<Rightarrow> process) i. closing (f 0) \<and> process_reachable demo_env (f 0) \<and> (mpc (f i) = Exited \<or> (\<exists>m. mpc (f i) = Died m))"
proof -
  let ?e = demo_env
  obtain q where q: "process_reachable ?e q" "mpc q = Cleanup" "mutex q = None" using demo_closing by blast
  obtain q1 q2 q3 q4 where s: "main_step ?e q q1" "main_step ?e q1 q2" "main_step ?e q2 q3" "main_step ?e q3 q4"
      "mpc q4 = Exited" "mutex q4 = None"
    using close_steps [OF q(2,3), of ?e] by metis
  define f where "f i = (if i = 0 then q else if i = 1 then q1 else if i = 2 then q2 else if i = 3 then q3 else q4)" for i :: nat
  have g: "f i = q4" if "4 \<le> i" for i using that by (simp add: f_def)
  have st: "process_step ?e (f i) (f (Suc i)) \<or> f (Suc i) = f i" for i
    using s by (cases "4 \<le> i") (auto simp: f_def process_step_def numeral_eq_Suc le_Suc_eq not_le less_Suc_eq)
  have "\<not> main_step ?e q4 t" for t using s(5) by (auto elim: main_stepE)
  then have fair: "strongly_fair (main_step ?e) f"
    unfolding strongly_fair_def using g by (metis linear order_trans)
  have "\<exists>j \<ge> i. no_card ?e \<or> mutex (f j) = None" for i using g [of "max 4 i"] s(6) by (metis max.cobounded1 max.cobounded2)
  moreover have "closing (f 0)" using q(2) by (simp add: f_def closing_def)
  ultimately have "\<exists>i. mpc (f i) = Exited \<or> (\<exists>m. mpc (f i) = Died m)" using process_exits [of f ?e, OF _ st fair] by blast
  moreover have "process_reachable ?e (f 0)" using q(1) by (simp add: f_def)
  ultimately show ?thesis using \<open>closing (f 0)\<close> by blast
qed

text \<open>A client of the named pipe is served and leaves before the program is closed.\<close>

lemma pipe_served:
  "\<exists>p. process_reachable pipe_env p \<and> mpc p = Starting [] \<and> mutex p = None \<and> status p NamedPipe = Running \<and>
     (\<forall>a. a \<noteq> NamedPipe \<longrightarrow> (\<exists>r. status p a = Finished r)) \<and>
     at (l_pipe (lps p)) = InAccept \<and> serving (l_pipe (lps p)) = [] \<and> given (l_pipe (lps p)) = [good_client]"
proof -
  let ?e = pipe_env and ?as = "filter (\<lambda>a. a \<noteq> NamedPipe) applications"
  obtain p where p: "process_reachable ?e p" "mpc p = Starting []" "lps p = loops_start ?e" "mutex p = None" "\<And>a. status p a = Opening"
    using started [of ?e] by blast
  have "alive p" using p(2) by (simp add: alive_def)
  with finish_all [of p ?as ?e] p(5) pipe_opened(2) obtain p0 where p0: "(process_step ?e)\<^sup>*\<^sup>* p p0" "mpc p0 = Starting []"
      "lps p0 = loops_start ?e" "mutex p0 = None" "\<forall>a. a \<noteq> NamedPipe \<longrightarrow> (\<exists>r. status p0 a = Finished r)" "status p0 NamedPipe = Opening"
    using p(2-4) distinct_applications by auto
  let ?r0 = "run_start NamedPipe_loop :: conn run_state" and ?p1 = "p0\<lparr>status := (status p0)(NamedPipe := Running)\<rparr>"
  let ?r1 = "?r0\<lparr>at := InAccept, serving := good_client # serving ?r0, given := good_client # given ?r0\<rparr>"
  let ?r2 = "?r1\<lparr>serving := remove1 good_client (serving ?r1)\<rparr>"
  let ?p2 = "?p1\<lparr>lps := (lps ?p1)\<lparr>l_pipe := ?r1\<rparr>\<rparr>" and ?p3 = "?p1\<lparr>lps := (lps ?p1)\<lparr>l_pipe := ?r2\<rparr>\<rparr>"
  have al: "alive p0" "alive ?p1" "alive ?p2" using p0(2) by (simp_all add: alive_def)
  have 1: "process_step ?e p0 ?p1" using bg_step.open_loops [OF al(1) p0(6) pipe_opened(1)] by (simp add: process_step_def)
  have "run_step NamedPipe_loop ?r0 ?r1"
    using run_step.accept_serve [of ?r0 NamedPipe_loop good_client good_client] by (simp add: run_start_def loop_top_def NamedPipe_loop_def)
  then have "loops_step ?e NamedPipe (lps ?p1) ((lps ?p1)\<lparr>l_pipe := ?r1\<rparr>)"
    using loops_step.pipe_step [of "lps ?p1" ?r1 ?e] p0(3) by (simp add: loops_start_def)
  then have 2: "process_step ?e ?p1 ?p2" by (rule app_runs [OF _ al(2) pipe_opened(1)]) (simp_all add: p0(4))
  have "run_step NamedPipe_loop ?r1 ?r2" by (rule run_step.handler_done) simp
  then have "loops_step ?e NamedPipe (lps ?p2) ((lps ?p2)\<lparr>l_pipe := ?r2\<rparr>)"
    using loops_step.pipe_step [of "lps ?p2" ?r2 ?e] by simp
  then have "process_step ?e ?p2 (?p2\<lparr>lps := (lps ?p2)\<lparr>l_pipe := ?r2\<rparr>\<rparr>)" by (rule app_runs [OF _ al(3) pipe_opened(1)]) (simp_all add: p0(4))
  then have "process_step ?e ?p2 ?p3" by simp
  with three_steps [of "process_step ?e", OF 1 2] p(1) p0(1) have "process_reachable ?e ?p3" by (meson rtranclp_trans)
  then show ?thesis using p0 by (intro exI [of _ ?p3]) (simp add: run_start_def)
qed

text \<open>Its accept loop then ends in order.\<close>

lemma pipe_ends:
  assumes "alive p" "status p NamedPipe = Running" "mutex p = None" "at (l_pipe (lps p)) = InAccept" "serving (l_pipe (lps p)) = []"
  shows "\<exists>q. (process_step pipe_env)\<^sup>*\<^sup>* p q \<and> mpc q = mpc p \<and> waiter q = waiter p \<and> mutex q = None \<and>
    status q = (status p)(NamedPipe := Finished None) \<and> given (l_pipe (lps q)) = given (l_pipe (lps p))"
proof -
  let ?e = pipe_env and ?r = "l_pipe (lps p)"
  let ?r1 = "?r\<lparr>at := Waiting None\<rparr>" and ?r2 = "?r\<lparr>at := Returned None\<rparr>"
  let ?p1 = "p\<lparr>lps := (lps p)\<lparr>l_pipe := ?r1\<rparr>\<rparr>" and ?p2 = "p\<lparr>lps := (lps p)\<lparr>l_pipe := ?r2\<rparr>\<rparr>"
  let ?p3 = "?p2\<lparr>status := (status ?p2)(NamedPipe := Finished None), wg := wg ?p2 - 1\<rparr>"
  have al: "alive ?p1" "alive ?p2" using assms(1) by (simp_all add: alive_def)
  have "run_step NamedPipe_loop ?r ?r1"
    using run_step.accept_error [OF assms(4), of NamedPipe_loop ErrPipeListenerClosed] by (simp add: NamedPipe_loop_def)
  then have "loops_step ?e NamedPipe (lps p) ((lps p)\<lparr>l_pipe := ?r1\<rparr>)" using loops_step.pipe_step [of "lps p" ?r1 ?e] by simp
  then have 1: "process_step ?e p ?p1" by (rule app_runs [OF _ assms(1) pipe_opened(1) assms(2,3)])
  have "run_step NamedPipe_loop ?r1 (?r1\<lparr>at := Returned None\<rparr>)" by (rule run_step.wait_done) (simp_all add: NamedPipe_loop_def assms(5))
  then have "loops_step ?e NamedPipe (lps ?p1) ((lps ?p1)\<lparr>l_pipe := ?r2\<rparr>)" using loops_step.pipe_step [of "lps ?p1" ?r2 ?e] by simp
  then have "process_step ?e ?p1 (?p1\<lparr>lps := (lps ?p1)\<lparr>l_pipe := ?r2\<rparr>\<rparr>)"
    by (rule app_runs [OF _ al(1) pipe_opened(1)]) (simp_all add: assms(2,3))
  then have 2: "process_step ?e ?p1 ?p2" by simp
  have "process_step ?e ?p2 ?p3" using bg_step.app_returns [OF al(2), of NamedPipe ?e] assms(2) by (simp add: process_step_def)
  with three_steps [of "process_step ?e", OF 1 2] assms(3) show ?thesis by (intro exI [of _ ?p3]) simp
qed

lemma pipe_drained:
  "\<exists>p. process_reachable pipe_env p \<and> mpc p = Exited \<and> waiter p = WaiterDone \<and> status p NamedPipe = Finished None \<and>
     given (l_pipe (lps p)) = [good_client]"
proof -
  let ?e = pipe_env
  obtain p where p: "process_reachable ?e p" "mpc p = Starting []" "mutex p = None" "status p NamedPipe = Running"
     "\<forall>a. a \<noteq> NamedPipe \<longrightarrow> (\<exists>r. status p a = Finished r)"
     "at (l_pipe (lps p)) = InAccept" "serving (l_pipe (lps p)) = []" "given (l_pipe (lps p)) = [good_client]" using pipe_served by blast
  obtain q where q: "(process_step ?e)\<^sup>*\<^sup>* p q" "mpc q = Cleanup" "mutex q = None" "lps q = lps p" "status q = status p"
    using stop_from [OF p(2), of ?e] p(3) by (auto simp: pipe_env_def demo_env_def)
  let ?q1 = "q\<lparr>mpc := AwaitApps, lps := loops_cancel (lps q), waiter := WaitGroup\<rparr>"
  have 1: "process_step ?e q ?q1" using main_step.cleanup [OF q(2)] by (simp add: process_step_def)
  obtain t where t: "(process_step ?e)\<^sup>*\<^sup>* ?q1 t" "mpc t = AwaitApps" "waiter t = WaitGroup" "mutex t = None"
      "status t = (status q)(NamedPipe := Finished None)" "given (l_pipe (lps t)) = [good_client]"
    using pipe_ends [of ?q1] p q by (auto simp: alive_def loops_cancel_def)
  have rt: "process_reachable ?e t"
    using rtranclp_trans [OF p(1) rtranclp_trans [OF q(1) converse_rtranclp_into_rtranclp [of "process_step ?e", OF 1 t(1)]]] .
  have "active (status t a) = 0" for a using p(5) q(5) t(5) by (cases "a = NamedPipe") (force simp: active_def)+
  then have wg: "wg t = 0" using group.inv_reachable [OF rt] by (simp add: group_inv_def unfinished_def)
  let ?t2 = "t\<lparr>waiter := SendDone\<rparr>" and ?t3 = "t\<lparr>mpc := Leaving, waiter := WaiterDone\<rparr>"
  let ?t4 = "?t3\<lparr>mpc := Returning, world := deferred_close ?e (world ?t3)\<rparr>"
  have 2: "process_step ?e t ?t2" using bg_step.group_done [of t ?e] t wg by (simp add: process_step_def alive_def)
  have 3: "process_step ?e ?t2 ?t3" using main_step.received [of ?t2 ?e] t by (simp add: process_step_def)
  have 4: "process_step ?e ?t3 ?t4" using main_step.leave [of ?t3 ?e] t by (simp add: process_step_def can_close_def)
  have 5: "process_step ?e ?t4 (?t4\<lparr>mpc := Exited\<rparr>)" using main_step.exit [of ?t4 ?e] by (simp add: process_step_def)
  have "process_reachable ?e (?t4\<lparr>mpc := Exited\<rparr>)"
    using rtranclp_trans [OF rt rtranclp.rtrancl_into_rtrancl [of "process_step ?e", OF three_steps [of "process_step ?e", OF 2 3 4] 5]] .
  then show ?thesis using t by (intro exI [of _ "?t4\<lparr>mpc := Exited\<rparr>"]) simp
qed

theorem process_complete_shutdown_witness:
  "\<exists>p. process_reachable pipe_env p \<and> mpc p = Exited \<and> waiter p = WaiterDone \<and> (\<forall>a. \<exists>r. status p a = Finished r) \<and>
     given (l_pipe (lps p)) = [good_client] \<and> \<not> serves NamedPipe (lps p)"
proof -
  obtain p where p: "process_reachable pipe_env p" "mpc p = Exited" "waiter p = WaiterDone" "status p NamedPipe = Finished None"
     "given (l_pipe (lps p)) = [good_client]" using pipe_drained by blast
  from process_complete_shutdown [OF p(1,3,2)] p pipe_opened(1) show ?thesis by (intro exI [of _ p]) auto
qed

theorem process_killed_witness:
  "\<exists>p q m. process_reachable demo_env p \<and> (process_step demo_env)\<^sup>*\<^sup>* p q \<and> mpc q = Died m"
proof -
  let ?e = demo_env and ?c = "cyg_client [[0xFF, 0xFF, 0xFF, 0xFC]]"
  obtain p where p: "process_reachable ?e p" "mpc p = Starting []" "lps p = loops_start ?e" "\<And>a. status p a = Opening"
    using started [of ?e] by blast
  let ?p1 = "p\<lparr>status := (status p)(XShell := Running)\<rparr>"
  have al: "alive p" "alive ?p1" using p(2) by (simp_all add: alive_def)
  have "process_step ?e p ?p1" using bg_step.open_loops [OF al(1) p(4) demo_opened(2)] by (simp add: process_step_def)
  with p(1) have r: "process_reachable ?e ?p1" by (rule rtranclp.rtrancl_into_rtrancl)
  have "at (l_xsh (lps ?p1)) = InAccept" using p(3) by (simp add: loops_start_def run_start_def loop_top_def XShell_loop_def)
  with process_killed [OF al(2) _ demo_opened(2), of ?c] r show ?thesis by (fastforce simp: be_uint32_def)
qed

end
