(* ===== verification/Spec2Isabelle.thy ===== *)
theory Spec2Isabelle
  imports Main_Process Utils_Win
begin

text \<open>
  KeyBridge is an SSH agent for Windows. It offers the keys of the user's smart cards and
  certificates (through the CryptoAPI) and keys added at run time (an in-memory keyring) to clients
  that each speak to an agent in their own way: OpenSSH for Windows over a named pipe, WSL over a
  Unix socket or loopback TCP, Cygwin over its emulated sockets, PuTTY over the Pageant window and
  shared memory, XShell over its own window and TCP protocol, virtual machines over Hyper-V sockets.
  Inside a Hyper-V guest it forwards to the agent of the host. The same program, called as
  \<^verbatim>\<open>keybridge relay\<close>, relays standard input and output to a named pipe.

  How the parts interact: \<^verbatim>\<open>main.go\<close> chooses the agent (\<^verbatim>\<open>sshagent/\<close>), hands it to a server, and runs
  every transport of \<^verbatim>\<open>app/\<close> in a goroutine; a transport accepts connections, authenticates them with
  the help of \<^verbatim>\<open>utils/\<close>, and calls the server's handler for each; the handler lets the agent of
  \<^verbatim>\<open>golang.org/x/crypto\<close> serve the connection. The smart-card agent signs through \<^verbatim>\<open>capi/\<close>.

  \<^bold>\<open>Theories and sources.\<close>
    \<^item> \<open>KB_Prelude\<close>: bytes and words, Go's errors and results (\<open>outcome\<close>: a value, an error or a panic),
      big- and little-endian encodings with their round trips, decimal numbers. \<open>KB_Steps\<close>: rules for step
      relations as locales - invariants (\<open>step_invariant\<close>), reaching a goal under weak or strong fairness
      of one goroutine (\<open>fair_progress\<close>), and \<open>simulation\<close>; they are interpreted for the Pageant
      conversation, the watcher of virtual machines and the whole process.
    \<^item> \<open>Go_IO\<close>: readers, \<^verbatim>\<open>io.ReadFull\<close>, connections as segmented input and recorded writes; the locale
      \<open>byte_source\<close> is what a reader promises to \<^verbatim>\<open>ReadFull\<close>, interpreted for network connections, for
      the XShell proxy and for the Pageant connection. \<open>Go_ASN1\<close>: the part of \<^verbatim>\<open>encoding/asn1\<close> that reads an
      ECDSA signature, shown to read exactly the DER encodings.
    \<^item> \<open>Utils_Misc\<close> (\<^verbatim>\<open>utils/misc.go\<close>), \<open>Utils_Security\<close> (\<^verbatim>\<open>security.go\<close>, \<^verbatim>\<open>tcpowner.go\<close>), \<open>Utils_Mmap\<close> (\<^verbatim>\<open>mmap.go\<close>),
      \<open>Utils_Pageant\<close> (\<^verbatim>\<open>pageant.go\<close>, \<^verbatim>\<open>window.go\<close>), \<open>Utils_Win\<close> (clipboard, message boxes, DPI, elevation,
      XAgent windows, process events).
    \<^item> \<open>App_XShell\<close>, \<open>App_Cygwin\<close>: the handshakes of \<^verbatim>\<open>app/xshell.go\<close> and \<^verbatim>\<open>app/cygwin.go\<close>, and the XShell
      proxy. \<open>App_Transports\<close>: the \<^verbatim>\<open>Run\<close> of every transport; one step relation for the accept loop, its
      context, its listener and its handlers, with a \<open>transport\<close> record per file of \<^verbatim>\<open>app/\<close>.
      \<open>App_VSock\<close>: the workers for virtual machines (\<^verbatim>\<open>app/vsock.go\<close>, \<^verbatim>\<open>utils/wsl2.go\<close>). \<open>VSock_Watch\<close>: WMI
      query, \<^verbatim>\<open>dispatch\<close> (\<^verbatim>\<open>utils/processnotify.go\<close>) and watcher as three goroutines with their channels.
      \<open>Pageant_Exchange\<close>: window thread, accept loop and handlers of Pageant as one system.
    \<^item> \<open>Capi\<close> (\<^verbatim>\<open>capi/wincapi.go\<close>), \<open>Agent_Signers\<close> (\<^verbatim>\<open>rsa.go\<close>, \<^verbatim>\<open>ecdsa.go\<close>, \<^verbatim>\<open>eku.go\<close>), \<open>Capi_Agent\<close>
      (\<^verbatim>\<open>capi_agent.go\<close>, \<^verbatim>\<open>certificate.go\<close>), \<open>Agents\<close> (\<^verbatim>\<open>keyring_agent.go\<close>, \<^verbatim>\<open>wrapped_agent.go\<close>, \<^verbatim>\<open>hyperv.go\<close>,
      \<^verbatim>\<open>server.go\<close>): the agents. The locale \<open>ref_neutral\<close> is what the agent needs of a signer, the locale
      \<open>agent_keeps\<close> what a composition needs of an agent.
    \<^item> \<open>Relay\<close> (\<^verbatim>\<open>relay.go\<close>) and \<open>App_Main\<close> (\<^verbatim>\<open>app.go\<close>, \<^verbatim>\<open>menu.go\<close>, \<^verbatim>\<open>pubkey.go\<close>, \<^verbatim>\<open>main.go\<close> and the menu handlers).
    \<^item> \<open>Main_Process\<close>: the running program, from \<^verbatim>\<open>main\<close>'s first goroutine to its exit. The state holds where
      \<^verbatim>\<open>main\<close> is, the status of every application, the wait group and its waiter, the accept loops of the
      theories above with the handlers of the Hyper-V workers, the mutex of the smart-card agent and the
      world of the agents; a step is one of \<^verbatim>\<open>main\<close> or of any other goroutine.

  \<^bold>\<open>What is shown.\<close> For the whole program, under every interleaving: every call of the agents comes
  through a connection that was accepted and passed the check of its transport; certificate references
  are never given back too often, are exactly those of the keys as long as no enumeration breaks off,
  and all given back by the close that \<^verbatim>\<open>main\<close> defers; the wait group is well formed; once the program is
  being closed it exits, unless a call of the smart card blocks it for good, and if it does so before
  the timeout no transport but the Hyper-V one still serves anybody; and four bytes from any XShell
  client end it. For the Pageant conversation: every accepted request is answered at most once, from
  its own memory, and is answered when its handler's \<^verbatim>\<open>ServeAgent\<close> returns; a message that comes too early
  or too late can hang. For the watcher: what it is told is what WMI reported, in order, and there is
  one listener per machine if no report names a machine twice. For the parts: which clients the
  Pageant window, the Cygwin and XShell handshakes and the WSL peer check let through; PIN reset and
  key-handle release on every path of a signature; mappings, views, handles, clipboard memory and
  windows given back; the XShell proxy refines the re-framed stream and writes whole frames; an ECDSA
  signature is passed on unaltered; flags decide the signature hash; a wrapped agent answers with the
  first success or the first error; accept loops drain before they report success; the relay exits
  with code 0 only when a direction is complete; the exact inputs that make the XShell handshake, the
  identifier parser and the Pageant transport panic or the window procedure fault.

  \<^bold>\<open>Conventions.\<close> Fixed-width integers are words and wrap; Go's \<^verbatim>\<open>int\<close> is 64 bits wide and only counts
  lengths that fit, so it is a natural number. Code outside the repository is an argument: the Win32
  and CryptoAPI calls (answered by records of functions, for \<open>Capi\<close> as a function of the whole history
  of calls), \<^verbatim>\<open>golang.org/x/crypto\<close> (wire format, keyring, client, server, certificate signer),
  \<^verbatim>\<open>pkcs7\<close>, \<^verbatim>\<open>go-winio\<close>, WMI; so is the X.509 parser. What a theorem needs of them is a named
  hypothesis (\<open>unmarshals_init\<close>, \<open>dup_same\<close>, \<open>capi_ok\<close>, \<open>enum_ok\<close>, \<open>store_lists\<close>, \<open>steady\<close>, \<open>foreign\<close>, \<open>distinct_round\<close>).
  Loops that the environment can keep going are \<^theory_text>\<open>partial_function (option)\<close> with \<^const>\<open>None\<close> for not
  returning (\<^verbatim>\<open>ReadFull\<close>, the certificate enumeration, dialling with \<^verbatim>\<open>-p\<close>), and termination is proved where
  it holds; all other functions are total, and no fuel is used. Goroutines interleave as steps of an
  inductive relation; code under a mutex is one step, except that a handler's call of the smart-card
  agent has a beginning and an end, so that others can be seen to wait for it; a send and the matching
  receive on an unbuffered channel are one step, a buffered channel is a list with its bound; a \<^verbatim>\<open>select\<close>
  has a rule per case.
  Executions are infinite sequences that may stutter, and fairness is a premise only where a theorem
  says so (\<open>process_exits\<close>: strong fairness of \<^verbatim>\<open>main\<close>; \<open>pageant_replies\<close>: weak fairness of a handler's close).

  \<^bold>\<open>Not modelled.\<close> Printing and logging (the redirection by \<^verbatim>\<open>initDebugLog\<close> is), time except as events (a
  timeout may happen), blocking of a handshake on a silent client, what \<^verbatim>\<open>agent.ServeAgent\<close> does between
  two calls of the agent, the boxes of the menu handlers other than the public-key view inside the
  running process (their contents are modelled apart), and data races between unsynchronised
  goroutines, with the one exception of the public-key view's agent.
\<close>

section \<open>Properties across components\<close>

text \<open>
  Property C2. Certificate references over the life of the program: whichever agent \<^verbatim>\<open>main\<close> decides to
  serve - the host's over Hyper-V, the keyring, or the keyring with the smart card - and whatever
  clients, transports and menus do from then on, no certificate context that a key still uses has
  been given back too often. If moreover the enumeration of the store never breaks off (\<open>enum_ok\<close>; the
  references of a broken enumeration leak), the references held are at every moment exactly those of
  the agent's keys, and the deferred \<^verbatim>\<open>cag.Close()\<close> of \<^verbatim>\<open>main\<close> gives back every one of them. (A handler that
  is still running can load certificates again between that call and the end of the process.)
\<close>

theorem program_references:
  assumes "main_start os (e_client e) (e_ring e) (e_card e) args w = (w1, Serving ag hv)" and "follows_start e os hv w1"
    and "keys w = None" and "log w = []"
    and "capi_ok (e_card e)" and "foreign (e_ring e)" and "\<forall>c. foreign (e_client e c)"
    and "process_reachable e p"
  shows "ag = main_agent e \<and> held (map key_cert (keys_of (world p))) c \<le> refs (log (world p)) c \<and>
    (enum_ok (e_card e) \<longrightarrow> refs (log (world p)) c = held (map key_cert (keys_of (world p))) c) \<and>
    (\<forall>q. enum_ok (e_card e) \<and> mpc p = Leaving \<and> main_step e p q \<longrightarrow> refs (log (world q)) c = 0)"
proof -
  have "env_ok e" using main_start_world [OF assms(1-4)] assms(5-7) by (simp add: env_ok_def)
  with main_start_agent [OF assms(1,2)] references_kept [OF assms(8)] show ?thesis by blast
qed

definition demo_os :: main_os where
  "demo_os = \<lparr>installFlag = False, disableCapiFlag = False, disablePINCacheFlag = True,
     hvDial = (\<lambda>h. Fail (Errno 10050)), loadIcon = (\<lambda>i. Inr 1), newNotifier = (\<lambda>t i. Inr 1)\<rparr>"

text \<open>A client has listed the keys; one reference is held when \<^verbatim>\<open>main\<close> leaves, and none after its deferred call.\<close>

theorem program_references_witness:
  "\<exists>ag p q. main_start demo_os (e_client demo_env) (e_ring demo_env) (e_card demo_env) [''keybridge''] capi_start = (capi_start, Serving ag False) \<and>
     ag = main_agent demo_env \<and> process_reachable demo_env p \<and> mpc p = Leaving \<and> refs (log (world p)) 11 = 1 \<and>
     main_step demo_env p q \<and> refs (log (world q)) 11 = 0"
proof -
  let ?e = demo_env
  have m: "main_start demo_os (e_client ?e) (e_ring ?e) (e_card ?e) [''keybridge''] capi_start = (capi_start, Serving (main_agent ?e) False)"
    by (simp add: main_start_def demo_os_def main_agent_def demo_env_def SetDisablePINCache_def initSystray_def RegisterNotifier_def)
  have f: "follows_start ?e demo_os False capi_start"
    by (simp add: follows_start_def demo_os_def demo_env_def)
  obtain p q where p: "process_reachable ?e p" "mpc p = Leaving" "keys (world p) = Some [demo_key]" "main_step ?e p q"
    using demo_leaving by blast
  from p(3) have "held (map key_cert (keys_of (world p))) 11 = 1" by (simp add: keys_of_def demo_key_def)
  with program_references [OF m f _ _ _ _ _ p(1), of 11] demo_env_ok p m show ?thesis
    by (intro exI [of _ "main_agent ?e"] exI [of _ p] exI [of _ q]) (simp add: env_ok_def capi_start_def)
qed

end
